theory Spec2Isabelle
  imports Complex_Main "HOL-Library.Word"
begin

section \<open>The CSV backend of the data extractor\<close>

text \<open>
  A shallow embedding of \<^verbatim>\<open>src/ufo/utils/dataextractor/DataExtractorCSVBackend.cc\<close>.
  Every \<^verbatim>\<open>throw\<close> of the source is an \<open>Inl\<close> branch of the model, every loop a
  recursive function that visits the same items in the same order.
\<close>

subsection \<open>Errors\<close>

text \<open>
  One constructor per \<^verbatim>\<open>throw\<close> site of the source, named after the error kind:
  line 148 (\<open>InsufficientData\<close>), line 114 (\<open>NoPayloadColumnFound\<close>), line 118
  (\<open>AmbiguousPayloadColumn\<close>), line 169 (\<open>HeaderColumnCountMismatch\<close>), line 177
  (\<open>PayloadMustBeNumeric\<close>), line 184 (\<open>UnsupportedColumnType\<close>, with the offending tag),
  line 194 (\<open>DataRowColumnCountMismatch\<close>, with the 1-based line number), line 93
  (\<open>NotImplemented\<close>), line 215 (\<open>NoDataLoaded\<close>). \<open>MalformedNumericLiteral\<close> is the
  exception that leaves \<^verbatim>\<open>value_.as<long long>()\<close> or \<^verbatim>\<open>value_.as<double>()\<close> (lines 53
  and 62) when the conversion rejects the cell; the source does not catch it.
\<close>

datatype error =
    InsufficientData
  | NoPayloadColumnFound
  | AmbiguousPayloadColumn
  | HeaderColumnCountMismatch
  | PayloadMustBeNumeric
  | UnsupportedColumnType string
  | DataRowColumnCountMismatch nat
  | MalformedNumericLiteral
  | NotImplemented
  | NoDataLoaded

subsection \<open>Data\<close>

text \<open>
  \<^verbatim>\<open>DataExtractorInput::Coordinate\<close> is a
  \<^verbatim>\<open>boost::variant<std::vector<int>, std::vector<float>, std::vector<std::string>>\<close>.
  An \<^verbatim>\<open>int\<close> is a 32-bit word; the type \<open>'f\<close> stands for \<^verbatim>\<open>float\<close>.
\<close>

datatype 'f Coordinate =
    IntColumn "32 word list"
  | FloatColumn "'f list"
  | StringColumn "string list"

text \<open>
  \<^verbatim>\<open>DataExtractorInput\<close>: the payload array (an \<^verbatim>\<open>Eigen::ArrayXXf\<close>, here the list of its
  rows), the two maps keyed by coordinate name, and the vector of coordinate names per
  dimension.
\<close>

record 'f DataExtractorInput =
  payloadArray :: "'f list list"
  coordsVals :: "string \<rightharpoonup> 'f Coordinate"
  coord2DimMapping :: "string \<rightharpoonup> int"
  dim2CoordMapping :: "string list list"

text \<open>
  The collaborators that live outside this repository (eckit, oops, ioda, the C++
  conversions), taken as parameters. A cell of the decoded file is its text
  (\<^verbatim>\<open>value_.as<std::string>()\<close>); \<open>as_long_long\<close> and \<open>as_double\<close> are
  \<^verbatim>\<open>eckit::Value::as<long long>()\<close> and \<^verbatim>\<open>as<double>()\<close> on that cell, \<open>None\<close> when the
  conversion throws; \<open>double_to_float\<close> is \<^verbatim>\<open>static_cast<float>\<close> of a \<^verbatim>\<open>double\<close> (the type
  \<open>'d\<close>); \<open>int_to_float\<close> is the conversion of an \<^verbatim>\<open>int\<close> stored into the float array;
  the three \<open>missing_*\<close> are \<^verbatim>\<open>util::missingValue\<close> at \<^verbatim>\<open>int\<close>, \<^verbatim>\<open>float\<close> and
  \<^verbatim>\<open>std::string\<close>; \<open>convertV1PathToV2Path\<close> is the function of ioda.
\<close>

record ('d, 'f) externals =
  as_long_long :: "string \<Rightarrow> 64 word option"
  as_double :: "string \<Rightarrow> 'd option"
  double_to_float :: "'d \<Rightarrow> 'f"
  int_to_float :: "32 word \<Rightarrow> 'f"
  missing_int :: "32 word"
  missing_float :: "'f"
  missing_string :: "string"
  convertV1PathToV2Path :: "string \<Rightarrow> string"

subsection \<open>Constants\<close>

definition numHeaderRows :: nat where
  "numHeaderRows = 2"

definition missingValuePlaceholder :: string where
  "missingValuePlaceholder = ''_''"

subsection \<open>AppendValueVisitor\<close>

text \<open>
  \<^verbatim>\<open>static_cast<int>\<close> of a \<^verbatim>\<open>long long\<close> keeps the low 32 bits.
\<close>

fun AppendValueVisitor ::
  "('d, 'f) externals \<Rightarrow> string \<Rightarrow> 'f Coordinate \<Rightarrow> error + 'f Coordinate" where
  "AppendValueVisitor ext v (IntColumn values) =
     (if v = missingValuePlaceholder
      then Inr (IntColumn (values @ [missing_int ext]))
      else (case as_long_long ext v of
              None \<Rightarrow> Inl MalformedNumericLiteral
            | Some l \<Rightarrow> Inr (IntColumn (values @ [ucast l]))))"
| "AppendValueVisitor ext v (FloatColumn values) =
     (if v = missingValuePlaceholder
      then Inr (FloatColumn (values @ [missing_float ext]))
      else (case as_double ext v of
              None \<Rightarrow> Inl MalformedNumericLiteral
            | Some d \<Rightarrow> Inr (FloatColumn (values @ [double_to_float ext d]))))"
| "AppendValueVisitor ext v (StringColumn values) =
     (if v = missingValuePlaceholder
      then Inr (StringColumn (values @ [missing_string ext]))
      else Inr (StringColumn (values @ [v])))"

subsection \<open>ConvertToEigenArrayVisitor\<close>

text \<open>The output is resized to \<open>values.size()\<close> rows of one element each.\<close>

fun ConvertToEigenArrayVisitor ::
  "('d, 'f) externals \<Rightarrow> 'f Coordinate \<Rightarrow> error + 'f list list" where
  "ConvertToEigenArrayVisitor ext (IntColumn values) =
     Inr (map (\<lambda>x. [int_to_float ext x]) values)"
| "ConvertToEigenArrayVisitor ext (FloatColumn values) =
     Inr (map (\<lambda>x. [x]) values)"
| "ConvertToEigenArrayVisitor ext (StringColumn values) = Inl NotImplemented"

subsection \<open>findPayloadColumn\<close>

text \<open>
  \<^verbatim>\<open>eckit::StringTools::beginsWith\<close> and \<^verbatim>\<open>endsWith\<close>, as the comment above
  \<^verbatim>\<open>findPayloadColumn\<close> reads them; the second argument is never empty here.
\<close>

definition beginsWith :: "string \<Rightarrow> string \<Rightarrow> bool" where
  "beginsWith str substr = (take (length substr) str = substr)"

definition endsWith :: "string \<Rightarrow> string \<Rightarrow> bool" where
  "endsWith str substr =
     (length substr \<le> length str \<and> drop (length str - length substr) str = substr)"

definition isInPayloadGroup :: "string \<Rightarrow> string \<Rightarrow> string \<Rightarrow> bool" where
  "isInPayloadGroup pfx sfx name = (beginsWith name pfx \<or> endsWith name sfx)"

text \<open>
  \<^verbatim>\<open>std::find_if\<close>, as the distance of the returned iterator from \<open>begin()\<close>: the index
  of the first element that satisfies the predicate, the length of the list when none does.
\<close>

fun find_if :: "('a \<Rightarrow> bool) \<Rightarrow> 'a list \<Rightarrow> nat" where
  "find_if P [] = 0"
| "find_if P (x # xs) = (if P x then 0 else Suc (find_if P xs))"

definition findPayloadColumn :: "string list \<Rightarrow> string \<Rightarrow> error + nat" where
  "findPayloadColumn columnNames payloadGroup =
     (let pfx = payloadGroup @ ''/'';
          sfx = ''@'' @ payloadGroup;
          payloadColumnIt = find_if (isInPayloadGroup pfx sfx) columnNames
      in if payloadColumnIt = length columnNames then Inl NoPayloadColumnFound
         else if list_ex (isInPayloadGroup pfx sfx) (drop (payloadColumnIt + 1) columnNames)
         then Inl AmbiguousPayloadColumn
         else Inr payloadColumnIt)"

subsection \<open>createColumn\<close>

text \<open>
  \<^verbatim>\<open>createColumn<T>(numValues)\<close> returns an empty vector with reserved capacity; the
  capacity is not part of the value. One function per instance of the template.
\<close>

definition createColumn_string :: "nat \<Rightarrow> 'f Coordinate" where
  "createColumn_string numValues = StringColumn []"

definition createColumn_int :: "nat \<Rightarrow> 'f Coordinate" where
  "createColumn_int numValues = IntColumn []"

definition createColumn_float :: "nat \<Rightarrow> 'f Coordinate" where
  "createColumn_float numValues = FloatColumn []"

subsection \<open>loadData\<close>

text \<open>
  The allocation loop (lines 173 to 186) over the type header, from column \<open>column\<close> on.
\<close>

fun allocateColumns ::
  "string list \<Rightarrow> nat \<Rightarrow> nat \<Rightarrow> nat \<Rightarrow> error + 'f Coordinate list" where
  "allocateColumns [] payloadColumnIndex numValues column = Inr []"
| "allocateColumns (type # types) payloadColumnIndex numValues column =
     (case (if type = ''string'' \<or> type = ''datetime''
            then (if column = payloadColumnIndex then Inl PayloadMustBeNumeric
                  else Inr (createColumn_string numValues))
            else if type = ''int'' \<or> type = ''integer''
            then Inr (createColumn_int numValues)
            else if type = ''float''
            then Inr (createColumn_float numValues)
            else Inl (UnsupportedColumnType type)) of
        Inl e \<Rightarrow> Inl e
      | Inr c \<Rightarrow>
         (case allocateColumns types payloadColumnIndex numValues (Suc column) of
            Inl e \<Rightarrow> Inl e
          | Inr cs \<Rightarrow> Inr (c # cs)))"

text \<open>
  The inner loop of line 196: the visitor applied to each cell of a row and the column
  of the same index, left to right. The caller has checked that the row has as many cells
  as there are columns.
\<close>

fun appendRow ::
  "('d, 'f) externals \<Rightarrow> string list \<Rightarrow> 'f Coordinate list \<Rightarrow> error + 'f Coordinate list" where
  "appendRow ext (v # vs) (c # cs) =
     (case AppendValueVisitor ext v c of
        Inl e \<Rightarrow> Inl e
      | Inr c' \<Rightarrow>
         (case appendRow ext vs cs of
            Inl e \<Rightarrow> Inl e
          | Inr cs' \<Rightarrow> Inr (c' # cs')))"
| "appendRow ext [] cs = Inr cs"
| "appendRow ext vs [] = Inr []"

text \<open>
  The loop over the data rows (lines 189 to 198); \<open>row\<close> is the 0-based index of the
  first row of the list in the file.
\<close>

fun loadRows ::
  "('d, 'f) externals \<Rightarrow> nat \<Rightarrow> nat \<Rightarrow> string list list \<Rightarrow> 'f Coordinate list
     \<Rightarrow> error + 'f Coordinate list" where
  "loadRows ext numColumns row [] columns = Inr columns"
| "loadRows ext numColumns row (rowContents # rest) columns =
     (if length rowContents = 1 \<and> rowContents ! 0 = ''''
      then loadRows ext numColumns (Suc row) rest columns
      else if length rowContents \<noteq> numColumns
      then Inl (DataRowColumnCountMismatch (1 + row))
      else (case appendRow ext rowContents columns of
              Inl e \<Rightarrow> Inl e
            | Inr columns' \<Rightarrow> loadRows ext numColumns (Suc row) rest columns'))"

text \<open>
  The loop that stores the columns in the result (lines 203 to 212), over the pairs of
  a column's name and its values, from column \<open>column\<close> on.
\<close>

definition firstDim :: int where
  "firstDim = 0"

fun storeColumns ::
  "('d, 'f) externals \<Rightarrow> nat \<Rightarrow> nat \<Rightarrow> (string \<times> 'f Coordinate) list
     \<Rightarrow> 'f DataExtractorInput \<Rightarrow> error + 'f DataExtractorInput" where
  "storeColumns ext payloadColumnIndex column [] result = Inr result"
| "storeColumns ext payloadColumnIndex column ((name, c) # rest) result =
     (if column = payloadColumnIndex
      then (case ConvertToEigenArrayVisitor ext c of
              Inl e \<Rightarrow> Inl e
            | Inr output \<Rightarrow>
               storeColumns ext payloadColumnIndex (Suc column) rest
                 (result\<lparr>payloadArray := output\<rparr>))
      else storeColumns ext payloadColumnIndex (Suc column) rest
             (result\<lparr>coordsVals := (coordsVals result)(name \<mapsto> c),
                     coord2DimMapping := (coord2DimMapping result)(name \<mapsto> firstDim),
                     dim2CoordMapping :=
                       (dim2CoordMapping result)
                         [nat firstDim := dim2CoordMapping result ! nat firstDim @ [name]]\<rparr>))"

text \<open>
  The result object before the last loop: default-constructed, then
  \<^verbatim>\<open>dim2CoordMapping.resize(1)\<close>.
\<close>

definition emptyResult :: "'f DataExtractorInput" where
  "emptyResult =
     \<lparr>payloadArray = [], coordsVals = Map.empty, coord2DimMapping = Map.empty,
      dim2CoordMapping = [[]]\<rparr>"

text \<open>
  \<open>loadData\<close> on the decoded file \<open>contents\<close> (the value of
  \<^verbatim>\<open>eckit::CSVParser::decodeFile\<close>, one list of cells per line).
\<close>

definition loadData ::
  "('d, 'f) externals \<Rightarrow> string list list \<Rightarrow> string \<Rightarrow> error + 'f DataExtractorInput" where
  "loadData ext contents interpolatedArrayGroup =
     (let numRows = length contents
      in if numRows \<le> numHeaderRows then Inl InsufficientData
         else
           let numValues = numRows - numHeaderRows;
               columnNames = contents ! 0;
               numColumns = length columnNames
           in (case findPayloadColumn columnNames interpolatedArrayGroup of
                 Inl e \<Rightarrow> Inl e
               | Inr payloadColumnIndex \<Rightarrow>
                  let columnNames' = map (convertV1PathToV2Path ext) columnNames;
                      typeHeader = contents ! 1
                  in if length typeHeader \<noteq> numColumns then Inl HeaderColumnCountMismatch
                     else
                       (case allocateColumns typeHeader payloadColumnIndex numValues 0 of
                          Inl e \<Rightarrow> Inl e
                        | Inr columns \<Rightarrow>
                           (case loadRows ext numColumns numHeaderRows
                                   (drop numHeaderRows contents) columns of
                              Inl e \<Rightarrow> Inl e
                            | Inr columns' \<Rightarrow>
                               (case storeColumns ext payloadColumnIndex 0
                                       (zip columnNames' columns') emptyResult of
                                  Inl e \<Rightarrow> Inl e
                                | Inr result \<Rightarrow>
                                   if length (payloadArray result) = 0 then Inl NoDataLoaded
                                   else Inr result)))))"

subsection \<open>Notions used to state the properties\<close>

text \<open>The indices of the elements of a list that satisfy a predicate, in increasing order.\<close>

definition matchingIndices :: "('a \<Rightarrow> bool) \<Rightarrow> 'a list \<Rightarrow> nat list" where
  "matchingIndices P xs = filter (\<lambda>i. P (xs ! i)) [0..<length xs]"

text \<open>The control flow of \<open>findPayloadColumn\<close> for any predicate.\<close>

definition locate :: "('a \<Rightarrow> bool) \<Rightarrow> 'a list \<Rightarrow> error + nat" where
  "locate P xs =
     (let k = find_if P xs
      in if k = length xs then Inl NoPayloadColumnFound
         else if list_ex P (drop (k + 1) xs) then Inl AmbiguousPayloadColumn
         else Inr k)"

text \<open>A data row that \<open>loadRows\<close> skips as an empty line, and the rows it does not skip.\<close>

definition blankRow :: "string list \<Rightarrow> bool" where
  "blankRow rowContents = (length rowContents = 1 \<and> rowContents ! 0 = '''')"

definition dataRows :: "string list list \<Rightarrow> string list list" where
  "dataRows contents = filter (\<lambda>r. \<not> blankRow r) (drop numHeaderRows contents)"

text \<open>
  The column type decoder as the specification words it: the placeholder gives the missing
  value of the column's type; any other cell of an integer column is parsed as an integer
  and narrowed to \<^verbatim>\<open>int\<close>, any other cell of a float column is parsed as a floating-point
  number, any other cell of a text column is kept verbatim. \<open>None\<close> is a cell that does
  not parse. \<open>decodedPayload\<close> is the value that a cell of the payload column, of the
  given tag, contributes to the payload array.
\<close>

definition decodedInt :: "('d, 'f) externals \<Rightarrow> string \<Rightarrow> 32 word option" where
  "decodedInt ext v =
     (if v = ''_'' then Some (missing_int ext) else map_option ucast (as_long_long ext v))"

definition decodedFloat :: "('d, 'f) externals \<Rightarrow> string \<Rightarrow> 'f option" where
  "decodedFloat ext v =
     (if v = ''_'' then Some (missing_float ext)
      else map_option (double_to_float ext) (as_double ext v))"

definition decodedString :: "('d, 'f) externals \<Rightarrow> string \<Rightarrow> string" where
  "decodedString ext v = (if v = ''_'' then missing_string ext else v)"

definition decodedPayload :: "('d, 'f) externals \<Rightarrow> string \<Rightarrow> string \<Rightarrow> 'f option" where
  "decodedPayload ext tag v =
     (if tag = ''int'' \<or> tag = ''integer'' then map_option (int_to_float ext) (decodedInt ext v)
      else if tag = ''float'' then decodedFloat ext v
      else None)"

text \<open>The number of values of a column.\<close>

fun columnLength :: "'f Coordinate \<Rightarrow> nat" where
  "columnLength (IntColumn values) = length values"
| "columnLength (FloatColumn values) = length values"
| "columnLength (StringColumn values) = length values"

text \<open>
  The empty column that the allocation loop creates for a recognised tag, and the five
  recognised tags.
\<close>

definition columnOfTag :: "string \<Rightarrow> 'f Coordinate" where
  "columnOfTag tag =
     (if tag = ''string'' \<or> tag = ''datetime'' then StringColumn []
      else if tag = ''int'' \<or> tag = ''integer'' then IntColumn []
      else FloatColumn [])"

definition supportedTag :: "string \<Rightarrow> bool" where
  "supportedTag tag = (tag \<in> {''string'', ''datetime'', ''int'', ''integer'', ''float''})"

text \<open>The visitor applied to the cells of one column, from the first data row to the last.\<close>

fun appendCells ::
  "('d, 'f) externals \<Rightarrow> string list \<Rightarrow> 'f Coordinate \<Rightarrow> error + 'f Coordinate" where
  "appendCells ext [] c = Inr c"
| "appendCells ext (v # vs) c =
     (case AppendValueVisitor ext v c of Inl e \<Rightarrow> Inl e | Inr c' \<Rightarrow> appendCells ext vs c')"

text \<open>The body of the allocation loop for one type tag.\<close>

definition allocStep :: "string \<Rightarrow> bool \<Rightarrow> error + 'f Coordinate" where
  "allocStep type isPayload =
     (if type = ''string'' \<or> type = ''datetime''
      then (if isPayload then Inl PayloadMustBeNumeric else Inr (StringColumn []))
      else if type = ''int'' \<or> type = ''integer'' then Inr (IntColumn [])
      else if type = ''float'' then Inr (FloatColumn [])
      else Inl (UnsupportedColumnType type))"

subsection \<open>The built-in conversion of an int to float\<close>

text \<open>
  Line 88 stores an \<^verbatim>\<open>int\<close> into the \<^verbatim>\<open>Eigen::ArrayXXf\<close>: the built-in conversion of an
  \<^verbatim>\<open>int\<close> to \<^verbatim>\<open>float\<close>. A \<^verbatim>\<open>float\<close> is a binary32 number, with a significand of 24
  bits. The conversion gives the nearest binary32 number, and on a tie the one with the
  even significand: the rounding of IEEE 754 hardware in its default mode (the C++
  standard leaves the choice between the two neighbours to the implementation). Every
  \<^verbatim>\<open>int\<close> is within the range of \<^verbatim>\<open>float\<close>. The result is given as the real number
  that the \<^verbatim>\<open>float\<close> denotes.
\<close>

text \<open>The number of binary digits of a natural number.\<close>

fun bitLength :: "nat \<Rightarrow> nat" where
  "bitLength n = (if n = 0 then 0 else Suc (bitLength (n div 2)))"

declare bitLength.simps [simp del]

text \<open>The quotient of two natural numbers, rounded to the nearest, to the even one on a tie.\<close>

definition roundDiv :: "nat \<Rightarrow> nat \<Rightarrow> nat" where
  "roundDiv a b =
     (let q = a div b; r = a mod b
      in if b < 2 * r \<or> (2 * r = b \<and> odd q) then q + 1 else q)"

text \<open>An integer rounded to a significand of \<open>p\<close> bits.\<close>

definition roundInt :: "nat \<Rightarrow> int \<Rightarrow> int" where
  "roundInt p n =
     (let a = nat \<bar>n\<bar>; k = bitLength a
      in if k \<le> p then n
         else sgn n * int (roundDiv a (2 ^ (k - p)) * 2 ^ (k - p)))"

definition int_to_binary32 :: "32 word \<Rightarrow> real" where
  "int_to_binary32 x = real_of_int (roundInt 24 (sint x))"

text \<open>
  The value \<open>m * 2 ^ e\<close> of a significand and an exponent, and the real numbers that are
  finite binary32 numbers.
\<close>

definition dyadicValue :: "int \<times> int \<Rightarrow> real" where
  "dyadicValue me =
     (case me of (m, e) \<Rightarrow>
        if 0 \<le> e then real_of_int m * 2 ^ nat e else real_of_int m / 2 ^ nat (- e))"

definition isBinary32 :: "real \<Rightarrow> bool" where
  "isBinary32 x =
     (\<exists>m e :: int. \<bar>m\<bar> < 2 ^ 24 \<and> - 149 \<le> e \<and> e \<le> 104 \<and> x = dyadicValue (m, e))"

subsection \<open>An instance of the external collaborators\<close>

text \<open>
  Modelled from the spec: the numeric conversions of eckit, \<^verbatim>\<open>util::missingValue\<close> of oops
  and \<^verbatim>\<open>convertV1PathToV2Path\<close> of ioda are not part of this repository. The instance
  below is the one the examples are evaluated at. An integer cell is an integral literal
  in signed decimal form, a float cell a literal in decimal or scientific form, and any
  other text is rejected; a name \<open>var@Group\<close> becomes \<open>Group/var\<close> and a name without
  \<open>@\<close> is kept. A \<^verbatim>\<open>double\<close> is a significand and a binary exponent: the literal rounded
  to 53 bits. A \<^verbatim>\<open>float\<close> is the real number it denotes: \<^verbatim>\<open>static_cast<float>\<close> of
  line 62 rounds the \<^verbatim>\<open>double\<close> to 24 bits, and the store of line 88 is
  \<open>int_to_binary32\<close>. Both roundings are to the nearest, to the even significand on a
  tie, for numbers in the range of the normal numbers of the format. The three missing
  values are the ones oops reserves: the least \<^verbatim>\<open>int\<close> plus 5, the binary32 number next to
  0.99 times the least \<^verbatim>\<open>float\<close>, and a reserved text.
\<close>

definition digitValue :: "char \<Rightarrow> nat option" where
  "digitValue c = map_of (zip ''0123456789'' [0, 1, 2, 3, 4, 5, 6, 7, 8, 9]) c"

fun digitsValue :: "nat \<Rightarrow> string \<Rightarrow> nat option" where
  "digitsValue acc [] = Some acc"
| "digitsValue acc (c # cs) =
     (case digitValue c of None \<Rightarrow> None | Some d \<Rightarrow> digitsValue (10 * acc + d) cs)"

definition unsignedLiteral :: "string \<Rightarrow> nat option" where
  "unsignedLiteral s = (if s = [] then None else digitsValue 0 s)"

definition integerLiteral :: "string \<Rightarrow> int option" where
  "integerLiteral s =
     (case s of
        [] \<Rightarrow> None
      | c # cs \<Rightarrow>
         if c = CHR ''-'' then map_option (\<lambda>n. - int n) (unsignedLiteral cs)
         else if c = CHR ''+'' then map_option int (unsignedLiteral cs)
         else map_option int (unsignedLiteral s))"

text \<open>
  A literal in decimal or scientific form, as its digits \<open>n\<close> and its decimal exponent
  \<open>k\<close>: the number \<open>n * 10 ^ k\<close>.
\<close>

definition unsignedDecimal :: "string \<Rightarrow> (int \<times> int) option" where
  "unsignedDecimal s =
     (let ip = takeWhile (\<lambda>c. c \<noteq> CHR ''.'') s;
          fp = drop 1 (dropWhile (\<lambda>c. c \<noteq> CHR ''.'') s)
      in map_option (\<lambda>n. (int n, - int (length fp))) (unsignedLiteral (ip @ fp)))"

definition signedDecimal :: "string \<Rightarrow> (int \<times> int) option" where
  "signedDecimal s =
     (case s of
        [] \<Rightarrow> None
      | c # cs \<Rightarrow>
         if c = CHR ''-'' then map_option (\<lambda>(n, k). (- n, k)) (unsignedDecimal cs)
         else if c = CHR ''+'' then unsignedDecimal cs
         else unsignedDecimal s)"

definition decimalLiteral :: "string \<Rightarrow> (int \<times> int) option" where
  "decimalLiteral s =
     (let m = takeWhile (\<lambda>c. c \<noteq> CHR ''e'' \<and> c \<noteq> CHR ''E'') s;
          e = dropWhile (\<lambda>c. c \<noteq> CHR ''e'' \<and> c \<noteq> CHR ''E'') s
      in case signedDecimal m of
           None \<Rightarrow> None
         | Some (n, k) \<Rightarrow>
            if e = [] then Some (n, k)
            else (case integerLiteral (tl e) of
                    None \<Rightarrow> None
                  | Some k' \<Rightarrow> Some (n, k + k')))"

text \<open>
  The binary exponent of a positive fraction \<open>a / d\<close>, and the fraction \<open>n / d\<close> rounded to
  a significand of \<open>p\<close> bits: the significand and its binary exponent.
\<close>

definition binaryExponent :: "nat \<Rightarrow> nat \<Rightarrow> int" where
  "binaryExponent a d =
     (let e0 = int (bitLength a) - int (bitLength d)
      in if (if 0 \<le> e0 then d * 2 ^ nat e0 \<le> a else d \<le> a * 2 ^ nat (- e0))
         then e0 else e0 - 1)"

definition roundRatio :: "nat \<Rightarrow> int \<Rightarrow> nat \<Rightarrow> int \<times> int" where
  "roundRatio p n d =
     (if n = 0 then (0, 0)
      else
        let a = nat \<bar>n\<bar>;
            sh = binaryExponent a d - (int p - 1);
            q = (if 0 \<le> sh then roundDiv a (d * 2 ^ nat sh)
                 else roundDiv (a * 2 ^ nat (- sh)) d)
        in (sgn n * int q, sh))"

definition double_of_decimal :: "int \<times> int \<Rightarrow> int \<times> int" where
  "double_of_decimal nk =
     (case nk of (n, k) \<Rightarrow>
        if 0 \<le> k then roundRatio 53 (n * 10 ^ nat k) 1 else roundRatio 53 n (10 ^ nat (- k)))"

definition binary32_of_double :: "int \<times> int \<Rightarrow> real" where
  "binary32_of_double me =
     (case me of (m, e) \<Rightarrow>
        dyadicValue
          (if 0 \<le> e then roundRatio 24 (m * 2 ^ nat e) 1 else roundRatio 24 m (2 ^ nat (- e))))"

definition v1PathToV2Path :: "string \<Rightarrow> string" where
  "v1PathToV2Path path =
     (let var = takeWhile (\<lambda>c. c \<noteq> CHR ''@'') path;
          rest = dropWhile (\<lambda>c. c \<noteq> CHR ''@'') path
      in if rest = [] then path else tl rest @ ''/'' @ var)"

definition referenceExternals :: "(int \<times> int, real) externals" where
  "referenceExternals =
     \<lparr>as_long_long = (\<lambda>s. map_option word_of_int (integerLiteral s)),
      as_double = (\<lambda>s. map_option double_of_decimal (decimalLiteral s)),
      double_to_float = binary32_of_double,
      int_to_float = int_to_binary32,
      missing_int = - 2147483643,
      missing_float = - 16609443 * 2 ^ 104,
      missing_string = ''MISSING*'',
      convertV1PathToV2Path = v1PathToV2Path\<rparr>"

text \<open>
  The elements of a list that the last loop of \<open>loadData\<close> treats as coordinates: all but
  the one at index \<open>p\<close>, where the first element has index \<open>k\<close>.
\<close>

fun otherColumns :: "nat \<Rightarrow> nat \<Rightarrow> 'a list \<Rightarrow> 'a list" where
  "otherColumns p k [] = []"
| "otherColumns p k (x # xs) =
     (if k = p then otherColumns p (Suc k) xs else x # otherColumns p (Suc k) xs)"

text \<open>
  A cell that is not the placeholder and that the numeric conversion of its column's tag
  rejects.
\<close>

definition rejectedCell :: "('d, 'f) externals \<Rightarrow> string \<Rightarrow> string \<Rightarrow> bool" where
  "rejectedCell ext tag v =
     (v \<noteq> ''_'' \<and>
      ((tag = ''int'' \<or> tag = ''integer'') \<and> as_long_long ext v = None \<or>
       tag = ''float'' \<and> as_double ext v = None))"



text \<open>A column with its values removed: what remains is the kind of the column.\<close>

fun emptied :: "'f Coordinate \<Rightarrow> 'f Coordinate" where
  "emptied (IntColumn values) = IntColumn []"
| "emptied (FloatColumn values) = FloatColumn []"
| "emptied (StringColumn values) = StringColumn []"

text \<open>
  The grammar of a file that loads: at least one row after the two header rows, a payload
  column found by name, header rows of equal length, recognised tags with a numeric one
  for the payload column, at least one data row that is not an empty line, and in each of
  these rows one cell per column, none rejected by its column's conversion.
\<close>

definition wellFormed :: "('d, 'f) externals \<Rightarrow> string list list \<Rightarrow> string \<Rightarrow> bool" where
  "wellFormed ext contents g =
     (numHeaderRows < length contents \<and>
      (case findPayloadColumn (contents ! 0) g of
         Inl e \<Rightarrow> False
       | Inr p \<Rightarrow>
          length (contents ! 1) = length (contents ! 0) \<and>
          list_all supportedTag (contents ! 1) \<and>
          \<not> (contents ! 1 ! p = ''string'' \<or> contents ! 1 ! p = ''datetime'') \<and>
          dataRows contents \<noteq> [] \<and>
          list_all (\<lambda>row. length row = length (contents ! 0) \<and>
                          list_all (\<lambda>(tag, v). \<not> rejectedCell ext tag v) (zip (contents ! 1) row))
            (dataRows contents)))"

section \<open>Properties\<close>

subsection \<open>The payload column locator\<close>

lemma beginsWith_iff: "beginsWith str substr \<longleftrightarrow> (\<exists>rest. str = substr @ rest)"
  unfolding beginsWith_def
  by (metis append_eq_conv_conj append_take_drop_id)

lemma endsWith_iff: "endsWith str substr \<longleftrightarrow> (\<exists>front. str = front @ substr)"
  unfolding endsWith_def
  by (metis append_eq_conv_conj append_take_drop_id diff_add_inverse2 diff_le_self
      length_append length_drop)

lemma matchingIndices_Nil: "matchingIndices P [] = []"
  by (simp add: matchingIndices_def)

lemma matchingIndices_Cons:
  "matchingIndices P (x # xs) = (if P x then [0] else []) @ map Suc (matchingIndices P xs)"
proof -
  have "[0..<length (x # xs)] = 0 # map Suc [0..<length xs]"
    by (simp add: upt_conv_Cons map_Suc_upt del: upt_Suc)
  then show ?thesis
    by (simp add: matchingIndices_def filter_map comp_def)
qed

lemma matchingIndices_empty: "matchingIndices P xs = [] \<longleftrightarrow> \<not> list_ex P xs"
  by (induction xs) (simp_all add: matchingIndices_Nil matchingIndices_Cons)

lemma locate_Cons:
  "locate P (x # xs) =
     (if P x then (if list_ex P xs then Inl AmbiguousPayloadColumn else Inr 0)
      else map_sum id Suc (locate P xs))"
  by (simp add: locate_def Let_def)

lemma locate_matchingIndices:
  "locate P xs =
     (case matchingIndices P xs of
        [] \<Rightarrow> Inl NoPayloadColumnFound
      | [i] \<Rightarrow> Inr i
      | _ \<Rightarrow> Inl AmbiguousPayloadColumn)"
proof (induction xs)
  case Nil
  show ?case by (simp add: locate_def matchingIndices_Nil)
next
  case (Cons x xs)
  show ?case
  proof (cases "P x")
    case True
    then show ?thesis
      using matchingIndices_empty [of P xs]
      by (cases "matchingIndices P xs") (simp_all add: locate_Cons matchingIndices_Cons)
  next
    case False
    then show ?thesis
      using Cons.IH
      by (simp add: locate_Cons matchingIndices_Cons split: list.splits)
  qed
qed

lemma findPayloadColumn_locate:
  "findPayloadColumn columnNames g =
     locate (isInPayloadGroup (g @ ''/'') (''@'' @ g)) columnNames"
  by (simp add: findPayloadColumn_def locate_def Let_def)

text \<open>
  Claim C2. For every list of column names and every payload-group label, a name matches
  exactly when it begins with the label followed by \<open>/\<close> or ends with \<open>@\<close> followed by
  the label; \<open>findPayloadColumn\<close> fails with \<open>NoPayloadColumnFound\<close> when no name
  matches, fails with \<open>AmbiguousPayloadColumn\<close> when two or more names match, and
  otherwise returns the index of the one name that matches.
\<close>

theorem findPayloadColumn_by_matches:
  "findPayloadColumn columnNames label =
     (case filter (\<lambda>i. (\<exists>rest. columnNames ! i = label @ ''/'' @ rest) \<or>
                        (\<exists>front. columnNames ! i = front @ ''@'' @ label))
             [0..<length columnNames] of
        [] \<Rightarrow> Inl NoPayloadColumnFound
      | [i] \<Rightarrow> Inr i
      | _ \<Rightarrow> Inl AmbiguousPayloadColumn)"
proof -
  have "isInPayloadGroup (label @ ''/'') (''@'' @ label) =
        (\<lambda>name. (\<exists>rest. name = label @ ''/'' @ rest) \<or> (\<exists>front. name = front @ ''@'' @ label))"
    by (rule ext) (simp add: isInPayloadGroup_def beginsWith_iff endsWith_iff)
  then show ?thesis
    by (simp add: findPayloadColumn_locate locate_matchingIndices matchingIndices_def)
qed

subsection \<open>The missing-value placeholder\<close>

text \<open>
  Claim C5. A cell equal to the placeholder \<open>_\<close> makes the visitor append the missing
  value of the column's type: \<open>missing_int\<close> to an integer column, \<open>missing_float\<close> to
  a float column, \<open>missing_string\<close> to a text column. The numeric conversions are not
  consulted: the result is the same whatever \<open>as_long_long\<close> and \<open>as_double\<close> are,
  also when they reject every cell.
\<close>

theorem AppendValueVisitor_placeholder:
  "AppendValueVisitor ext ''_'' (IntColumn is) = Inr (IntColumn (is @ [missing_int ext])) \<and>
   AppendValueVisitor ext ''_'' (FloatColumn fs) =
     Inr (FloatColumn (fs @ [missing_float ext])) \<and>
   AppendValueVisitor ext ''_'' (StringColumn ss) =
     Inr (StringColumn (ss @ [missing_string ext])) \<and>
   AppendValueVisitor (ext\<lparr>as_long_long := parse_int, as_double := parse_double\<rparr>) ''_'' c =
     AppendValueVisitor ext ''_'' c"
  by (cases c) (simp_all add: missingValuePlaceholder_def)

subsection \<open>The allocation loop\<close>

lemma allocateColumns_Cons:
  "allocateColumns (t # ts) p n c =
     (case allocStep t (c = p) of
        Inl e \<Rightarrow> Inl e
      | Inr col \<Rightarrow>
         (case allocateColumns ts p n (Suc c) of
            Inl e \<Rightarrow> Inl e
          | Inr cs \<Rightarrow> Inr (col # cs)))"
  by (simp add: allocStep_def createColumn_string_def createColumn_int_def
      createColumn_float_def)

lemma tag_cases_Inr:
  assumes "(if A then (if b then Inl e else Inr s)
            else if B then Inr i else if C then Inr f else Inl e') = Inr col"
  shows "col = (if A then s else if B then i else f) \<and> (A \<or> B \<or> C) \<and> (b \<longrightarrow> \<not> A)"
  using assms by (auto split: if_splits)

lemma tag_cases_supported:
  assumes "A \<or> B \<or> C"
  shows "(if A then (if False then Inl e else Inr s)
          else if B then Inr i else if C then Inr f else Inl e') =
         Inr (if A then s else if B then i else f)"
  using assms by auto

lemma supportedTag_iff:
  "supportedTag t \<longleftrightarrow>
     (t = ''string'' \<or> t = ''datetime'') \<or> (t = ''int'' \<or> t = ''integer'') \<or> t = ''float''"
  unfolding supportedTag_def
  by (simp only: insert_iff empty_iff disj_assoc simp_thms)

lemma allocStep_Inr:
  assumes "(allocStep t b :: error + 'f Coordinate) = Inr col"
  shows "col = columnOfTag t \<and> supportedTag t \<and> (b \<longrightarrow> \<not> (t = ''string'' \<or> t = ''datetime''))"
  unfolding columnOfTag_def supportedTag_iff
  by (rule tag_cases_Inr [OF assms [unfolded allocStep_def]])

lemma allocStep_supported:
  assumes "supportedTag t"
  shows "(allocStep t False :: error + 'f Coordinate) = Inr (columnOfTag t)"
  unfolding allocStep_def columnOfTag_def
  by (rule tag_cases_supported [OF assms [unfolded supportedTag_iff]])

lemma allocStep_payload_text:
  "t = ''string'' \<or> t = ''datetime'' \<Longrightarrow> allocStep t True = Inl PayloadMustBeNumeric"
  unfolding allocStep_def by simp

lemma allocateColumns_numValues:
  "(allocateColumns types p n c :: error + 'f Coordinate list) = allocateColumns types p n' c"
proof (induction types arbitrary: c)
  case Nil
  show ?case by simp
next
  case (Cons t ts)
  show ?case
    unfolding allocateColumns_Cons Cons.IH [of "Suc c"] ..
qed

lemma allocateColumns_Inr:
  "allocateColumns types p n c = Inr cols \<Longrightarrow>
     cols = map columnOfTag types \<and> list_all supportedTag types \<and>
     (c \<le> p \<and> p - c < length types \<longrightarrow>
        \<not> (types ! (p - c) = ''string'' \<or> types ! (p - c) = ''datetime''))"
proof (induction types arbitrary: c cols)
  case Nil
  then show ?case by simp
next
  case (Cons t ts)
  from Cons.prems obtain col cs where
    first: "allocStep t (c = p) = Inr col" and
    rest: "allocateColumns ts p n (Suc c) = Inr cs" and
    cols: "cols = col # cs"
    unfolding allocateColumns_Cons by (auto split: sum.splits)
  note st = allocStep_Inr [OF first]
  note st1 = st [THEN conjunct1]
  note st2 = st [THEN conjunct2, THEN conjunct1]
  note st3 = st [THEN conjunct2, THEN conjunct2]
  note ih = Cons.IH [OF rest]
  have types_ok: "c \<le> p \<and> p - c < length (t # ts) \<longrightarrow>
        \<not> ((t # ts) ! (p - c) = ''string'' \<or> (t # ts) ! (p - c) = ''datetime'')"
  proof (cases "c = p")
    case True
    then have "\<not> (t = ''string'' \<or> t = ''datetime'')" using st3 by (rule_tac mp)
    then show ?thesis using True by (simp only: diff_self_eq_0 nth_Cons_0 simp_thms)
  next
    case False
    show ?thesis
    proof
      assume a: "c \<le> p \<and> p - c < length (t # ts)"
      then have b: "Suc c \<le> p \<and> p - Suc c < length ts" and e: "p - c = Suc (p - Suc c)"
        using False by auto
      have "\<not> (ts ! (p - Suc c) = ''string'' \<or> ts ! (p - Suc c) = ''datetime'')"
        using ih [THEN conjunct2, THEN conjunct2] b by (rule mp)
      then show "\<not> ((t # ts) ! (p - c) = ''string'' \<or> (t # ts) ! (p - c) = ''datetime'')"
        unfolding e nth_Cons_Suc .
    qed
  qed
  have "cols = map columnOfTag (t # ts)"
    using cols st1 ih [THEN conjunct1] by simp
  moreover have "list_all supportedTag (t # ts)"
    using st2 ih [THEN conjunct2, THEN conjunct1] by simp
  ultimately show ?case using types_ok by (intro conjI)
qed

lemma allocateColumns_payload_text:
  assumes "c \<le> p" "p - c < length types"
    and "types ! (p - c) = ''string'' \<or> types ! (p - c) = ''datetime''"
    and "\<forall>j<p - c. supportedTag (types ! j)"
  shows "(allocateColumns types p n c :: error + 'f Coordinate list) = Inl PayloadMustBeNumeric"
  using assms
proof (induction types arbitrary: c)
  case Nil
  then show ?case by simp
next
  case (Cons t ts)
  show ?case
  proof (cases "c = p")
    case True
    then have "(allocStep t (c = p) :: error + 'f Coordinate) = Inl PayloadMustBeNumeric"
      using Cons.prems(3) allocStep_payload_text [of t] by simp
    then show ?thesis unfolding allocateColumns_Cons by simp
  next
    case False
    then have 1: "Suc c \<le> p" "p - Suc c < length ts" and 2: "p - c = Suc (p - Suc c)"
      using Cons.prems by auto
    have 3: "ts ! (p - Suc c) = ''string'' \<or> ts ! (p - Suc c) = ''datetime''"
      using Cons.prems(3) 2 by simp
    have 4: "\<forall>j<p - Suc c. supportedTag (ts ! j)"
    proof (intro allI impI)
      fix j assume "j < p - Suc c"
      then have "Suc j < p - c" using 2 by simp
      then have "supportedTag ((t # ts) ! Suc j)" using Cons.prems(4) by blast
      then show "supportedTag (ts ! j)" by simp
    qed
    have "0 < p - c" using 2 by simp
    then have "supportedTag ((t # ts) ! 0)" using Cons.prems(4) by blast
    then have 5: "(allocStep t (c = p) :: error + 'f Coordinate) = Inr (columnOfTag t)"
      using False allocStep_supported [of t] by simp
    have "(allocateColumns ts p n (Suc c) :: error + 'f Coordinate list) = Inl PayloadMustBeNumeric"
      by (rule Cons.IH [OF 1 3 4])
    then show ?thesis unfolding allocateColumns_Cons using 5 by simp
  qed
qed

lemma allocateColumns_payload_text_fails:
  assumes "c \<le> p" "p - c < length types"
    and "types ! (p - c) = ''string'' \<or> types ! (p - c) = ''datetime''"
  shows "allocateColumns types p n c \<noteq> Inr cols"
  using allocateColumns_Inr [of types p n c cols] assms by blast

subsection \<open>What a successful search says about the names\<close>

lemma find_if_le: "find_if P xs \<le> length xs"
  by (induction xs) simp_all

lemma find_if_hit: "find_if P xs < length xs \<Longrightarrow> P (xs ! find_if P xs)"
  by (induction xs) (simp_all split: if_splits)

lemma find_if_before: "j < find_if P xs \<Longrightarrow> \<not> P (xs ! j)"
  by (induction xs arbitrary: j) (auto simp: nth_Cons' split: if_splits)

lemma findPayloadColumn_Inr:
  assumes "findPayloadColumn names g = Inr p"
  shows "p < length names"
    and "isInPayloadGroup (g @ ''/'') (''@'' @ g) (names ! p)"
    and "\<And>j. j < length names \<Longrightarrow> j \<noteq> p \<Longrightarrow> \<not> isInPayloadGroup (g @ ''/'') (''@'' @ g) (names ! j)"
proof -
  let ?P = "isInPayloadGroup (g @ ''/'') (''@'' @ g)"
  from assms have p: "p = find_if ?P names" and ne: "p \<noteq> length names"
    and nex: "\<not> list_ex ?P (drop (p + 1) names)"
    by (auto simp: findPayloadColumn_def Let_def split: if_splits)
  from ne p show lt: "p < length names" using find_if_le [of ?P names] by simp
  from lt p show "?P (names ! p)" using find_if_hit [of ?P names] by simp
  fix j assume j: "j < length names" "j \<noteq> p"
  show "\<not> ?P (names ! j)"
  proof (cases "j < p")
    case True
    then show ?thesis using p find_if_before by blast
  next
    case False
    then have "p + 1 \<le> j" using j by simp
    then have "names ! j = drop (p + 1) names ! (j - (p + 1))" "j - (p + 1) < length (drop (p + 1) names)"
      using j by simp_all
    then show ?thesis using nex by (metis list_ex_iff nth_mem)
  qed
qed

subsection \<open>The order of the checks on the header\<close>

lemmas literal_defs = digitValue_def unsignedLiteral_def integerLiteral_def
  unsignedDecimal_def signedDecimal_def decimalLiteral_def v1PathToV2Path_def
  referenceExternals_def double_of_decimal_def binary32_of_double_def roundRatio_def
  binaryExponent_def roundDiv_def dyadicValue_def int_to_binary32_def roundInt_def
  bitLength.simps

lemmas loadData_eval = loadData_def findPayloadColumn_def isInPayloadGroup_def beginsWith_def
  endsWith_def numHeaderRows_def missingValuePlaceholder_def createColumn_string_def
  createColumn_int_def createColumn_float_def emptyResult_def firstDim_def Let_def

lemma loadData_rows:
  "rows \<noteq> [] \<Longrightarrow>
   loadData ext (names # types # rows) g =
     (case findPayloadColumn names g of
        Inl e \<Rightarrow> Inl e
      | Inr p \<Rightarrow>
         if length types \<noteq> length names then Inl HeaderColumnCountMismatch
         else
           (case allocateColumns types p (length rows) 0 of
              Inl e \<Rightarrow> Inl e
            | Inr columns \<Rightarrow>
               (case loadRows ext (length names) 2 rows columns of
                  Inl e \<Rightarrow> Inl e
                | Inr columns' \<Rightarrow>
                   (case storeColumns ext p 0
                           (zip (map (convertV1PathToV2Path ext) names) columns')
                           emptyResult of
                      Inl e \<Rightarrow> Inl e
                    | Inr result \<Rightarrow>
                       if payloadArray result = [] then Inl NoDataLoaded else Inr result))))"
  unfolding loadData_def numHeaderRows_def Let_def
  by (simp split: sum.splits)

lemma loadData_short: "length contents \<le> 2 \<Longrightarrow> loadData ext contents g = Inl InsufficientData"
  by (simp add: loadData_def numHeaderRows_def)

lemma contents_shape:
  assumes "2 < length contents"
  obtains rows where "contents = (contents ! 0) # (contents ! 1) # rows" "rows \<noteq> []"
proof -
  from assms obtain a rest1 where 1: "contents = a # rest1" by (cases contents) auto
  with assms obtain b rest2 where 2: "rest1 = b # rest2" by (cases rest1) auto
  with 1 assms obtain c rest3 where 3: "rest2 = c # rest3" by (cases rest2) auto
  show ?thesis using that [of "c # rest3"] 1 2 3 by simp
qed

lemma locate_no_match: "\<not> list_ex P xs \<Longrightarrow> locate P xs = Inl NoPayloadColumnFound"
  using matchingIndices_empty [of P xs] by (simp add: locate_matchingIndices)

text \<open>
  Claim C7, as the code has it. \<open>findPayloadColumn\<close> is called (line 159) before the
  type header is compared with the name header (line 168). So a file of three or more
  rows in which no column name matches the payload convention fails with
  \<open>NoPayloadColumnFound\<close>, whether or not its two header rows have the same number of
  columns; \<open>HeaderColumnCountMismatch\<close> is the failure of a file whose payload column
  was found and whose header rows differ in length.
\<close>

theorem payload_search_before_header_count:
  assumes "2 < length contents"
  shows "(\<not> list_ex (isInPayloadGroup (g @ ''/'') (''@'' @ g)) (contents ! 0) \<longrightarrow>
            loadData ext contents g = Inl NoPayloadColumnFound) \<and>
         (findPayloadColumn (contents ! 0) g = Inr p \<and>
            length (contents ! 1) \<noteq> length (contents ! 0) \<longrightarrow>
            loadData ext contents g = Inl HeaderColumnCountMismatch)"
proof -
  from assms obtain rows where
    c: "contents = (contents ! 0) # (contents ! 1) # rows" and r: "rows \<noteq> []"
    by (rule contents_shape)
  have l: "loadData ext contents g = loadData ext ((contents ! 0) # (contents ! 1) # rows) g"
    using c by simp
  show ?thesis
    unfolding l loadData_rows [OF r]
    by (simp add: findPayloadColumn_locate locate_no_match)
qed

theorem payload_search_before_header_count_witness:
  "loadData referenceExternals [[''a'', ''b''], [''float''], [''1'', ''2'']] ''G'' =
     Inl NoPayloadColumnFound \<and>
   loadData referenceExternals [[''a'', ''x@G''], [''float''], [''1'', ''2'']] ''G'' =
     Inl HeaderColumnCountMismatch"
  using
    payload_search_before_header_count
      [of "[[''a'', ''b''], [''float''], [''1'', ''2'']]" "''G''" referenceExternals 0]
    payload_search_before_header_count
      [of "[[''a'', ''x@G''], [''float''], [''1'', ''2'']]" "''G''" referenceExternals 1]
  by (simp add: findPayloadColumn_def isInPayloadGroup_def beginsWith_def endsWith_def Let_def)

text \<open>
  The claim as the spec orders the steps fails: the header rows below differ in length and
  no name matches, and the load does not fail with \<open>HeaderColumnCountMismatch\<close>.
\<close>

theorem header_count_not_checked_first:
  "length [''a'', ''b''] \<noteq> length [''float''] \<and>
   \<not> list_ex (isInPayloadGroup (''G'' @ ''/'') (''@'' @ ''G'')) [''a'', ''b''] \<and>
   loadData referenceExternals [[''a'', ''b''], [''float''], [''1'', ''2'']] ''G'' =
     Inl NoPayloadColumnFound \<and>
   loadData referenceExternals [[''a'', ''b''], [''float''], [''1'', ''2'']] ''G'' \<noteq>
     Inl HeaderColumnCountMismatch"
  by (simp add: loadData_eval)

subsection \<open>A payload column declared as text\<close>

text \<open>
  Claim C4, as the code has it. When the payload column that \<open>findPayloadColumn\<close> finds
  is declared \<open>string\<close> or \<open>datetime\<close>, no table is ever produced, whatever the data
  rows hold. The failure is \<open>PayloadMustBeNumeric\<close>, raised in the allocation loop before
  any data row is read, when the checks that come first pass: the file has a data row,
  the two header rows have the same length, and every column before the payload column
  has one of the five recognised tags.
\<close>

theorem text_payload_never_loads:
  assumes "findPayloadColumn names g = Inr p"
    and "p < length types"
    and "types ! p = ''string'' \<or> types ! p = ''datetime''"
  shows "(\<forall>table. loadData (ext :: ('d, 'f) externals) (names # types # rows) g \<noteq> Inr table) \<and>
         (rows \<noteq> [] \<and> length types = length names \<and> (\<forall>c<p. supportedTag (types ! c)) \<longrightarrow>
            loadData ext (names # types # rows) g = Inl PayloadMustBeNumeric)"
proof (cases "rows = []")
  case True
  then show ?thesis by (simp add: loadData_short)
next
  case False
  have no: "(allocateColumns types p (length rows) 0 :: error + 'f Coordinate list) \<noteq> Inr cols"
    for cols
    using allocateColumns_payload_text_fails [of 0 p types] assms by simp
  have "loadData ext (names # types # rows) g \<noteq> Inr table" for table
    unfolding loadData_rows [OF False] using assms(1) no
    by (simp split: sum.splits)
  moreover have "loadData ext (names # types # rows) g = Inl PayloadMustBeNumeric"
    if "length types = length names" "\<forall>c<p. supportedTag (types ! c)"
  proof -
    have "(allocateColumns types p (length rows) 0 :: error + 'f Coordinate list) =
            Inl PayloadMustBeNumeric"
      using allocateColumns_payload_text [of 0 p types] assms that by simp
    then show ?thesis
      unfolding loadData_rows [OF False] using assms(1) that by simp
  qed
  ultimately show ?thesis by blast
qed

theorem text_payload_never_loads_witness:
  "loadData referenceExternals
     [[''station'', ''pressure@ErrorInflation''], [''string'', ''string''],
      [''A'', ''x''], [''B'', ''2.25'']]
     ''ErrorInflation'' = Inl PayloadMustBeNumeric"
  using text_payload_never_loads
    [of "[''station'', ''pressure@ErrorInflation'']" "''ErrorInflation''" 1
      "[''string'', ''string'']" referenceExternals "[[''A'', ''x''], [''B'', ''2.25'']]"]
  by (simp add: findPayloadColumn_def isInPayloadGroup_def beginsWith_def endsWith_def Let_def
      supportedTag_def less_Suc_eq)

text \<open>
  The claim without these conditions fails: in both files below the payload column is
  declared \<open>string\<close>, and the load fails with another error, raised earlier.
\<close>

theorem text_payload_other_error_first:
  "findPayloadColumn [''a'', ''x@G''] ''G'' = Inr 1 \<and>
   [''bogus'', ''string''] ! 1 = ''string'' \<and>
   loadData referenceExternals [[''a'', ''x@G''], [''bogus'', ''string''], [''1'', ''2'']] ''G'' =
     Inl (UnsupportedColumnType ''bogus'') \<and>
   findPayloadColumn [''x@G''] ''G'' = Inr 0 \<and>
   [''string''] ! 0 = ''string'' \<and>
   loadData referenceExternals [[''x@G''], [''string'']] ''G'' = Inl InsufficientData"
  by (simp add: loadData_eval)

subsection \<open>The loop over the data rows\<close>

lemma AppendValueVisitor_Int:
  "AppendValueVisitor ext v (IntColumn xs) =
     (case decodedInt ext v of
        None \<Rightarrow> Inl MalformedNumericLiteral
      | Some x \<Rightarrow> Inr (IntColumn (xs @ [x])))"
  by (simp add: decodedInt_def missingValuePlaceholder_def split: option.splits)

lemma AppendValueVisitor_Float:
  "AppendValueVisitor ext v (FloatColumn xs) =
     (case decodedFloat ext v of
        None \<Rightarrow> Inl MalformedNumericLiteral
      | Some x \<Rightarrow> Inr (FloatColumn (xs @ [x])))"
  by (simp add: decodedFloat_def missingValuePlaceholder_def split: option.splits)

lemma AppendValueVisitor_String:
  "AppendValueVisitor ext v (StringColumn xs) = Inr (StringColumn (xs @ [decodedString ext v]))"
  by (simp add: decodedString_def missingValuePlaceholder_def)

lemma appendCells_Int:
  "appendCells ext vs (IntColumn xs) = Inr c \<Longrightarrow>
     \<exists>ys. map (decodedInt ext) vs = map Some ys \<and> c = IntColumn (xs @ ys)"
proof (induction vs arbitrary: xs)
  case Nil
  then show ?case by simp
next
  case (Cons v vs)
  from Cons.prems obtain x where x: "decodedInt ext v = Some x"
    and rest: "appendCells ext vs (IntColumn (xs @ [x])) = Inr c"
    by (auto simp: AppendValueVisitor_Int simp del: AppendValueVisitor.simps split: option.splits)
  from Cons.IH [OF rest] obtain ys where
    "map (decodedInt ext) vs = map Some ys" "c = IntColumn ((xs @ [x]) @ ys)" by blast
  then have "map (decodedInt ext) (v # vs) = map Some (x # ys) \<and> c = IntColumn (xs @ x # ys)"
    using x by simp
  then show ?case by blast
qed

lemma appendCells_Float:
  "appendCells ext vs (FloatColumn xs) = Inr c \<Longrightarrow>
     \<exists>ys. map (decodedFloat ext) vs = map Some ys \<and> c = FloatColumn (xs @ ys)"
proof (induction vs arbitrary: xs)
  case Nil
  then show ?case by simp
next
  case (Cons v vs)
  from Cons.prems obtain x where x: "decodedFloat ext v = Some x"
    and rest: "appendCells ext vs (FloatColumn (xs @ [x])) = Inr c"
    by (auto simp: AppendValueVisitor_Float simp del: AppendValueVisitor.simps split: option.splits)
  from Cons.IH [OF rest] obtain ys where
    "map (decodedFloat ext) vs = map Some ys" "c = FloatColumn ((xs @ [x]) @ ys)" by blast
  then have "map (decodedFloat ext) (v # vs) = map Some (x # ys) \<and> c = FloatColumn (xs @ x # ys)"
    using x by simp
  then show ?case by blast
qed

lemma appendCells_String:
  "appendCells ext vs (StringColumn xs) = Inr (StringColumn (xs @ map (decodedString ext) vs))"
  by (induction vs arbitrary: xs)
     (simp_all add: AppendValueVisitor_String del: AppendValueVisitor.simps)

lemma AppendValueVisitor_length:
  "AppendValueVisitor ext v c = Inr c' \<Longrightarrow> columnLength c' = Suc (columnLength c)"
  by (cases c) (auto split: if_splits option.splits)

lemma appendCells_length:
  "appendCells ext vs c = Inr c' \<Longrightarrow> columnLength c' = columnLength c + length vs"
proof (induction vs arbitrary: c)
  case Nil
  then show ?case by simp
next
  case (Cons v vs)
  from Cons.prems obtain c1 where 1: "AppendValueVisitor ext v c = Inr c1"
    and 2: "appendCells ext vs c1 = Inr c'"
    by (auto split: sum.splits)
  show ?case using Cons.IH [OF 2] AppendValueVisitor_length [OF 1] by simp
qed

lemma appendCells_snoc:
  "appendCells ext (vs @ [v]) c =
     (case appendCells ext vs c of Inl e \<Rightarrow> Inl e | Inr c' \<Rightarrow> AppendValueVisitor ext v c')"
  by (induction vs arbitrary: c) (simp_all split: sum.splits)

lemma appendRow_Inr:
  assumes "length vs = length cs" and "appendRow ext vs cs = Inr cs'"
  shows "length cs' = length cs \<and>
         (\<forall>j<length cs. AppendValueVisitor ext (vs ! j) (cs ! j) = Inr (cs' ! j))"
  using assms
proof (induction vs cs arbitrary: cs' rule: list_induct2)
  case Nil
  then show ?case by simp
next
  case (Cons v vs c cs)
  from Cons.prems obtain c1 cs1 where 1: "AppendValueVisitor ext v c = Inr c1"
    and 2: "appendRow ext vs cs = Inr cs1" and 3: "cs' = c1 # cs1"
    by (auto split: sum.splits)
  from Cons.IH [OF 2] show ?case using 1 3 by (auto simp: nth_Cons')
qed

lemma loadRows_columns:
  assumes "loadRows ext n k rows cols = Inr cols'" and "length cols = n"
  shows "length cols' = n \<and>
         (\<forall>r\<in>set (filter (\<lambda>r. \<not> blankRow r) rows). length r = n) \<and>
         (\<forall>j<n. appendCells ext (map (\<lambda>r. r ! j) (filter (\<lambda>r. \<not> blankRow r) rows)) (cols ! j) =
                  Inr (cols' ! j))"
  using assms
proof (induction rows arbitrary: k cols)
  case Nil
  then show ?case by simp
next
  case (Cons r rows)
  show ?case
  proof (cases "blankRow r")
    case True
    then have "loadRows ext n (Suc k) rows cols = Inr cols'"
      using Cons.prems(1) by (simp add: blankRow_def)
    from Cons.IH [OF this Cons.prems(2)] show ?thesis using True by simp
  next
    case False
    then have nb: "\<not> (length r = 1 \<and> r ! 0 = '''')" by (simp add: blankRow_def)
    from Cons.prems(1) nb have len: "length r = n"
      by (auto split: if_splits)
    from Cons.prems(1) nb len obtain cols1 where 1: "appendRow ext r cols = Inr cols1"
      and 2: "loadRows ext n (Suc k) rows cols1 = Inr cols'"
      by (auto split: if_splits sum.splits)
    have lr: "length r = length cols" using len Cons.prems(2) by simp
    from appendRow_Inr [OF lr 1] have l1: "length cols1 = n"
      and step: "\<And>j. j < n \<Longrightarrow> AppendValueVisitor ext (r ! j) (cols ! j) = Inr (cols1 ! j)"
      using Cons.prems(2) by auto
    from Cons.IH [OF 2 l1] have ih1: "length cols' = n"
      and ih2: "\<forall>r\<in>set (filter (\<lambda>r. \<not> blankRow r) rows). length r = n"
      and ih3: "\<And>j. j < n \<Longrightarrow>
        appendCells ext (map (\<lambda>r. r ! j) (filter (\<lambda>r. \<not> blankRow r) rows)) (cols1 ! j) =
          Inr (cols' ! j)"
      by auto
    show ?thesis using False ih1 ih2 ih3 step len by simp
  qed
qed

lemma loadRows_row_index:
  "loadRows ext n k rows cols = Inr cols' \<Longrightarrow> loadRows ext n k' rows cols = Inr cols'"
proof (induction rows arbitrary: k k' cols)
  case Nil
  then show ?case by simp
next
  case (Cons r rows)
  show ?case
  proof (cases "length r = 1 \<and> r ! 0 = ''''")
    case True
    then show ?thesis using Cons.prems Cons.IH [of "Suc k" cols "Suc k'"] by simp
  next
    case False
    from Cons.prems False have len: "length r = n" by (auto split: if_splits)
    from Cons.prems False len obtain cols1 where 1: "appendRow ext r cols = Inr cols1"
      and 2: "loadRows ext n (Suc k) rows cols1 = Inr cols'"
      by (auto split: if_splits sum.splits)
    show ?thesis using False len 1 Cons.IH [OF 2, of "Suc k'"] by auto
  qed
qed

lemma loadRows_insert_blank:
  "loadRows ext n k (pre @ post) cols = Inr cols' \<Longrightarrow>
   loadRows ext n k (pre @ [''''] # post) cols = Inr cols'"
proof (induction pre arbitrary: k cols)
  case Nil
  then show ?case using loadRows_row_index [of ext n k post cols cols' "Suc k"] by simp
next
  case (Cons r pre)
  show ?case
  proof (cases "length r = 1 \<and> r ! 0 = ''''")
    case True
    then show ?thesis using Cons.prems Cons.IH [of "Suc k" cols] by simp
  next
    case False
    from Cons.prems False have len: "length r = n" by (auto split: if_splits)
    from Cons.prems False len obtain cols1 where 1: "appendRow ext r cols = Inr cols1"
      and 2: "loadRows ext n (Suc k) (pre @ post) cols1 = Inr cols'"
      by (auto split: if_splits sum.splits)
    show ?thesis using False len 1 Cons.IH [OF 2] by auto
  qed
qed

subsection \<open>The loop that stores the columns\<close>

lemma otherColumns_after: "p < k \<Longrightarrow> otherColumns p k xs = xs"
  by (induction xs arbitrary: k) simp_all

lemma otherColumns_take_drop:
  "k \<le> p \<Longrightarrow> otherColumns p k xs = take (p - k) xs @ drop (Suc (p - k)) xs"
proof (induction xs arbitrary: k)
  case Nil
  show ?case by simp
next
  case (Cons x xs)
  show ?case
  proof (cases "k = p")
    case True
    then show ?thesis by (simp add: otherColumns_after)
  next
    case False
    then have "Suc k \<le> p" "p - k = Suc (p - Suc k)" using Cons.prems by simp_all
    then show ?thesis using Cons.IH [of "Suc k"] False by simp
  qed
qed

lemma otherColumns_map: "map f (otherColumns p k xs) = otherColumns p k (map f xs)"
  by (induction xs arbitrary: k) simp_all

lemma otherColumns_nth:
  "x \<in> set (otherColumns p k xs) \<Longrightarrow> \<exists>j<length xs. j + k \<noteq> p \<and> xs ! j = x"
proof (induction xs arbitrary: k)
  case Nil
  then show ?case by simp
next
  case (Cons y ys)
  show ?case
  proof (cases "x = y \<and> k \<noteq> p")
    case True
    then have "0 < length (y # ys) \<and> 0 + k \<noteq> p \<and> (y # ys) ! 0 = x" by simp
    then show ?thesis by blast
  next
    case False
    then have "x \<in> set (otherColumns p (Suc k) ys)"
      using Cons.prems by (auto split: if_splits)
    from Cons.IH [OF this] obtain j where "j < length ys" "j + Suc k \<noteq> p" "ys ! j = x"
      by blast
    then have "Suc j < length (y # ys) \<and> Suc j + k \<noteq> p \<and> (y # ys) ! Suc j = x" by simp
    then show ?thesis by blast
  qed
qed

lemma storeColumns_payload_after:
  "p < k \<Longrightarrow> storeColumns ext p k ncs res = Inr res' \<Longrightarrow> payloadArray res' = payloadArray res"
proof (induction ncs arbitrary: k res)
  case Nil
  then show ?case by simp
next
  case (Cons nc ncs)
  obtain name0 c0 where nc: "nc = (name0, c0)" by (cases nc)
  let ?res = "res\<lparr>coordsVals := (coordsVals res)(name0 \<mapsto> c0),
                 coord2DimMapping := (coord2DimMapping res)(name0 \<mapsto> firstDim),
                 dim2CoordMapping :=
                   (dim2CoordMapping res)
                     [nat firstDim := dim2CoordMapping res ! nat firstDim @ [name0]]\<rparr>"
  from Cons.prems nc have r: "storeColumns ext p (Suc k) ncs ?res = Inr res'" by simp
  have "p < Suc k" using Cons.prems(1) by simp
  from Cons.IH [OF this r] show ?case by simp
qed

lemma storeColumns_result:
  assumes "storeColumns ext p k ncs res = Inr res'" and "dim2CoordMapping res = [l]"
  shows "dim2CoordMapping res' = [l @ map fst (otherColumns p k ncs)]"
    and "dom (coordsVals res') = dom (coordsVals res) \<union> fst ` set (otherColumns p k ncs)"
    and "\<And>name c. coordsVals res' name = Some c \<Longrightarrow>
           coordsVals res name = Some c \<or> (name, c) \<in> set (otherColumns p k ncs)"
    and "\<And>name. coord2DimMapping res' name =
           (if name \<in> fst ` set (otherColumns p k ncs) then Some 0
            else coord2DimMapping res name)"
    and "k \<le> p \<Longrightarrow> p - k < length ncs \<Longrightarrow>
           ConvertToEigenArrayVisitor ext (snd (ncs ! (p - k))) = Inr (payloadArray res')"
  using assms
proof (induction ncs arbitrary: k res l)
  case Nil
  { case 1 then show ?case by simp }
  { case 2 then show ?case by simp }
  { case 3 then show ?case by simp }
  { case 4 then show ?case by simp }
  { case 5 then show ?case by simp }
next
  case (Cons nc ncs)
  obtain name0 c0 where nc: "nc = (name0, c0)" by (cases nc)
  {
    case 1
    show ?case
    proof (cases "k = p")
      case True
      with 1 nc obtain out where "ConvertToEigenArrayVisitor ext c0 = Inr out"
        and r: "storeColumns ext p (Suc k) ncs (res\<lparr>payloadArray := out\<rparr>) = Inr res'"
        by (auto split: sum.splits)
      from Cons.IH(1) [OF r] 1(2) True show ?thesis by simp
    next
      case False
      let ?res = "res\<lparr>coordsVals := (coordsVals res)(name0 \<mapsto> c0),
                     coord2DimMapping := (coord2DimMapping res)(name0 \<mapsto> firstDim),
                     dim2CoordMapping :=
                       (dim2CoordMapping res)
                         [nat firstDim := dim2CoordMapping res ! nat firstDim @ [name0]]\<rparr>"
      from False 1 nc have r: "storeColumns ext p (Suc k) ncs ?res = Inr res'" by simp
      have d: "dim2CoordMapping ?res = [l @ [name0]]" using 1(2) by (simp add: firstDim_def)
      from Cons.IH(1) [OF r d] False nc show ?thesis by simp
    qed
  }
  {
    case 2
    show ?case
    proof (cases "k = p")
      case True
      with 2 nc obtain out where "ConvertToEigenArrayVisitor ext c0 = Inr out"
        and r: "storeColumns ext p (Suc k) ncs (res\<lparr>payloadArray := out\<rparr>) = Inr res'"
        by (auto split: sum.splits)
      from Cons.IH(2) [OF r] 2(2) True show ?thesis by simp
    next
      case False
      let ?res = "res\<lparr>coordsVals := (coordsVals res)(name0 \<mapsto> c0),
                     coord2DimMapping := (coord2DimMapping res)(name0 \<mapsto> firstDim),
                     dim2CoordMapping :=
                       (dim2CoordMapping res)
                         [nat firstDim := dim2CoordMapping res ! nat firstDim @ [name0]]\<rparr>"
      from False 2 nc have r: "storeColumns ext p (Suc k) ncs ?res = Inr res'" by simp
      have d: "dim2CoordMapping ?res = [l @ [name0]]" using 2(2) by (simp add: firstDim_def)
      from Cons.IH(2) [OF r d] False nc show ?thesis by auto
    qed
  }
  {
    case (3 name c)
    show ?case
    proof (cases "k = p")
      case True
      with 3 nc obtain out where "ConvertToEigenArrayVisitor ext c0 = Inr out"
        and r: "storeColumns ext p (Suc k) ncs (res\<lparr>payloadArray := out\<rparr>) = Inr res'"
        by (auto split: sum.splits)
      from Cons.IH(3) [OF 3(1) r] 3(3) True show ?thesis by simp
    next
      case False
      let ?res = "res\<lparr>coordsVals := (coordsVals res)(name0 \<mapsto> c0),
                     coord2DimMapping := (coord2DimMapping res)(name0 \<mapsto> firstDim),
                     dim2CoordMapping :=
                       (dim2CoordMapping res)
                         [nat firstDim := dim2CoordMapping res ! nat firstDim @ [name0]]\<rparr>"
      from False 3 nc have r: "storeColumns ext p (Suc k) ncs ?res = Inr res'" by simp
      have d: "dim2CoordMapping ?res = [l @ [name0]]" using 3(3) by (simp add: firstDim_def)
      from Cons.IH(3) [OF 3(1) r d] False nc show ?thesis by (auto split: if_splits)
    qed
  }
  {
    case (4 name)
    show ?case
    proof (cases "k = p")
      case True
      with 4 nc obtain out where "ConvertToEigenArrayVisitor ext c0 = Inr out"
        and r: "storeColumns ext p (Suc k) ncs (res\<lparr>payloadArray := out\<rparr>) = Inr res'"
        by (auto split: sum.splits)
      from Cons.IH(4) [OF r] 4(2) True show ?thesis by simp
    next
      case False
      let ?res = "res\<lparr>coordsVals := (coordsVals res)(name0 \<mapsto> c0),
                     coord2DimMapping := (coord2DimMapping res)(name0 \<mapsto> firstDim),
                     dim2CoordMapping :=
                       (dim2CoordMapping res)
                         [nat firstDim := dim2CoordMapping res ! nat firstDim @ [name0]]\<rparr>"
      from False 4 nc have r: "storeColumns ext p (Suc k) ncs ?res = Inr res'" by simp
      have d: "dim2CoordMapping ?res = [l @ [name0]]" using 4(2) by (simp add: firstDim_def)
      from Cons.IH(4) [OF r d, of name] False nc show ?thesis by (auto simp: firstDim_def)
    qed
  }
  {
    case 5
    show ?case
    proof (cases "k = p")
      case True
      with 5 nc obtain out where o: "ConvertToEigenArrayVisitor ext c0 = Inr out"
        and r: "storeColumns ext p (Suc k) ncs (res\<lparr>payloadArray := out\<rparr>) = Inr res'"
        by (auto split: sum.splits)
      have "payloadArray res' = out"
        using storeColumns_payload_after [OF _ r, of ] True by simp
      then show ?thesis using o True nc by simp
    next
      case False
      let ?res = "res\<lparr>coordsVals := (coordsVals res)(name0 \<mapsto> c0),
                     coord2DimMapping := (coord2DimMapping res)(name0 \<mapsto> firstDim),
                     dim2CoordMapping :=
                       (dim2CoordMapping res)
                         [nat firstDim := dim2CoordMapping res ! nat firstDim @ [name0]]\<rparr>"
      from False 5 nc have r: "storeColumns ext p (Suc k) ncs ?res = Inr res'" by simp
      have d: "dim2CoordMapping ?res = [l @ [name0]]" using 5(4) by (simp add: firstDim_def)
      have "Suc k \<le> p" "p - Suc k < length ncs" "p - k = Suc (p - Suc k)"
        using False 5(1,2) by auto
      with Cons.IH(5) [OF _ _ r d] show ?thesis by simp
    qed
  }
qed

subsection \<open>What a successful load went through\<close>

lemma loadData_Inr:
  assumes "loadData ext contents g = Inr table"
  obtains p cols' where
    "2 < length contents"
    "findPayloadColumn (contents ! 0) g = Inr p"
    "length (contents ! 1) = length (contents ! 0)"
    "list_all supportedTag (contents ! 1)"
    "\<not> (contents ! 1 ! p = ''string'' \<or> contents ! 1 ! p = ''datetime'')"
    "length cols' = length (contents ! 0)"
    "\<forall>r\<in>set (dataRows contents). length r = length (contents ! 0)"
    "\<And>j. j < length (contents ! 0) \<Longrightarrow>
       appendCells ext (map (\<lambda>r. r ! j) (dataRows contents)) (columnOfTag (contents ! 1 ! j)) =
         Inr (cols' ! j)"
    "storeColumns ext p 0 (zip (map (convertV1PathToV2Path ext) (contents ! 0)) cols')
       emptyResult = Inr table"
    "payloadArray table \<noteq> []"
proof -
  have long: "2 < length contents"
  proof (rule ccontr)
    assume "\<not> 2 < length contents"
    then have "loadData ext contents g = Inl InsufficientData"
      by (simp add: loadData_short)
    with assms show False by simp
  qed
  then obtain rows where
    c: "contents = (contents ! 0) # (contents ! 1) # rows" and r: "rows \<noteq> []"
    by (rule contents_shape)
  let ?names = "contents ! 0" and ?types = "contents ! 1"
  have l: "loadData ext (?names # ?types # rows) g = Inr table"
    using c assms by simp
  have dr: "dataRows contents = filter (\<lambda>r. \<not> blankRow r) rows"
  proof -
    have "drop 2 contents = drop 2 (?names # ?types # rows)" using c by simp
    then show ?thesis by (simp add: dataRows_def numHeaderRows_def)
  qed
  from l [unfolded loadData_rows [OF r]] obtain p cols cols' where
    p: "findPayloadColumn ?names g = Inr p" and
    len: "length ?types = length ?names" and
    al: "allocateColumns ?types p (length rows) 0 = Inr cols" and
    lr: "loadRows ext (length ?names) 2 rows cols = Inr cols'" and
    st: "storeColumns ext p 0 (zip (map (convertV1PathToV2Path ext) ?names) cols') emptyResult =
           Inr table" and
    ne: "payloadArray table \<noteq> []"
    by (auto split: sum.splits if_splits)
  note a = allocateColumns_Inr [OF al]
  have cols: "cols = map columnOfTag ?types" by (rule a [THEN conjunct1])
  have sup: "list_all supportedTag ?types" by (rule a [THEN conjunct2, THEN conjunct1])
  have plt: "p < length ?names" by (rule findPayloadColumn_Inr(1) [OF p])
  have "0 \<le> p \<and> p - 0 < length ?types" using plt len by simp
  with a [THEN conjunct2, THEN conjunct2]
  have "\<not> (?types ! (p - 0) = ''string'' \<or> ?types ! (p - 0) = ''datetime'')" by (rule mp)
  then have num: "\<not> (?types ! p = ''string'' \<or> ?types ! p = ''datetime'')"
    unfolding diff_zero .
  have lc: "length cols = length ?names" using cols len by simp
  note lrc = loadRows_columns [OF lr lc]
  have 1: "length cols' = length ?names" using lrc by blast
  have 2: "\<forall>r\<in>set (dataRows contents). length r = length ?names"
    using lrc dr by simp
  have 3: "appendCells ext (map (\<lambda>r. r ! j) (dataRows contents)) (columnOfTag (?types ! j)) =
             Inr (cols' ! j)" if "j < length ?names" for j
  proof -
    have "cols ! j = columnOfTag (?types ! j)" using cols that len by simp
    moreover have "appendCells ext (map (\<lambda>r. r ! j) (filter (\<lambda>r. \<not> blankRow r) rows)) (cols ! j) =
      Inr (cols' ! j)" using lrc that by blast
    ultimately show ?thesis using dr by simp
  qed
  show ?thesis
    by (rule that [OF long p len sup num 1 2 3 st ne])
qed

subsection \<open>The payload array and the coordinate columns\<close>

lemma numeric_tag_cases:
  assumes "A \<or> B \<or> C" and "\<not> A"
  obtains (int) "B" | (float) "\<not> B" "C"
  using assms by blast

lemma disj_select_left:
  assumes "(B \<and> P) \<or> (\<not> B \<and> Q)" and "B"
  shows "P"
  using assms by blast

lemma disj_cases_guarded:
  assumes "(B \<and> P) \<or> (\<not> B \<and> C \<and> Q)"
  obtains (left) "B" "P" | (right) "\<not> B" "C" "Q"
  using assms by blast

lemma columnLength_columnOfTag: "columnLength (columnOfTag t) = 0"
  unfolding columnOfTag_def by (simp only: if_distrib [of columnLength] columnLength.simps list.size if_cancel)

lemma payload_column_decoded:
  assumes "loadData (ext :: ('d, 'f) externals) contents g = Inr table"
    and "findPayloadColumn (contents ! 0) g = Inr p"
  shows "((contents ! 1 ! p = ''int'' \<or> contents ! 1 ! p = ''integer'') \<and>
          (\<exists>ys. map (decodedInt ext) (map (\<lambda>r. r ! p) (dataRows contents)) = map Some ys \<and>
                payloadArray table = map (\<lambda>x. [int_to_float ext x]) ys)) \<or>
         (\<not> (contents ! 1 ! p = ''int'' \<or> contents ! 1 ! p = ''integer'') \<and>
          contents ! 1 ! p = ''float'' \<and>
          (\<exists>ys. map (decodedFloat ext) (map (\<lambda>r. r ! p) (dataRows contents)) = map Some ys \<and>
                payloadArray table = map (\<lambda>x. [x]) ys))"
proof -
  let ?names = "contents ! 0" and ?types = "contents ! 1"
  let ?cells = "map (\<lambda>r. r ! p) (dataRows contents)"
  show ?thesis
  proof (rule loadData_Inr [OF assms(1)])
  fix p' cols'
  assume p': "findPayloadColumn ?names g = Inr p'"
    and len: "length ?types = length ?names"
    and sup: "list_all supportedTag ?types"
    and num: "\<not> (?types ! p' = ''string'' \<or> ?types ! p' = ''datetime'')"
    and lc: "length cols' = length ?names"
    and cells: "\<And>j. j < length ?names \<Longrightarrow>
       appendCells ext (map (\<lambda>r. r ! j) (dataRows contents)) (columnOfTag (?types ! j)) =
         Inr (cols' ! j)"
    and st: "storeColumns ext p' 0 (zip (map (convertV1PathToV2Path ext) ?names) cols')
           emptyResult = Inr table"
  have pp: "p' = p" using p' assms(2) by simp
  have plt: "p < length ?names" by (rule findPayloadColumn_Inr(1) [OF assms(2)])
  have d: "dim2CoordMapping (emptyResult :: 'f DataExtractorInput) = [[]]"
    by (simp add: emptyResult_def)
  have "ConvertToEigenArrayVisitor ext
          (snd (zip (map (convertV1PathToV2Path ext) ?names) cols' ! (p - 0))) =
        Inr (payloadArray table)"
    using storeColumns_result(5) [OF st [unfolded pp] d] plt lc by simp
  then have conv: "ConvertToEigenArrayVisitor ext (cols' ! p) = Inr (payloadArray table)"
    using plt lc by simp
  note cell = cells [OF plt]
  have "supportedTag (?types ! p)" using sup plt len by (simp add: list_all_length)
  then have abc: "(?types ! p = ''string'' \<or> ?types ! p = ''datetime'') \<or>
     (?types ! p = ''int'' \<or> ?types ! p = ''integer'') \<or> ?types ! p = ''float''"
    by (rule supportedTag_iff [THEN iffD1])
  from abc num [unfolded pp] show ?thesis
  proof (cases rule: numeric_tag_cases)
    case int
    have "(columnOfTag (?types ! p) :: 'f Coordinate) = IntColumn []"
      unfolding columnOfTag_def if_not_P [OF num [unfolded pp]] if_P [OF int] ..
    with cell have "appendCells ext ?cells (IntColumn []) = Inr (cols' ! p)" by simp
    from appendCells_Int [OF this] obtain ys where
      ys: "map (decodedInt ext) ?cells = map Some ys" and "cols' ! p = IntColumn ys" by auto
    with conv have "payloadArray table = map (\<lambda>x. [int_to_float ext x]) ys" by simp
    with ys int show ?thesis by blast
  next
    case float
    have "(columnOfTag (?types ! p) :: 'f Coordinate) = FloatColumn []"
      unfolding columnOfTag_def if_not_P [OF num [unfolded pp]] if_not_P [OF float(1)] ..
    with cell have "appendCells ext ?cells (FloatColumn []) = Inr (cols' ! p)" by simp
    from appendCells_Float [OF this] obtain ys where
      ys: "map (decodedFloat ext) ?cells = map Some ys" and "cols' ! p = FloatColumn ys" by auto
    with conv have "payloadArray table = map (\<lambda>x. [x]) ys" by simp
    with ys float show ?thesis by blast
  qed
  qed
qed

lemma coordinate_columns_loaded:
  assumes "loadData (ext :: ('d, 'f) externals) contents g = Inr table"
    and "findPayloadColumn (contents ! 0) g = Inr p"
    and "coordsVals table name = Some c"
  shows "\<exists>j<length (contents ! 0). j \<noteq> p \<and>
           convertV1PathToV2Path ext (contents ! 0 ! j) = name \<and>
           appendCells ext (map (\<lambda>r. r ! j) (dataRows contents))
             (columnOfTag (contents ! 1 ! j)) = Inr c"
proof -
  let ?names = "contents ! 0" and ?types = "contents ! 1"
  show ?thesis
  proof (rule loadData_Inr [OF assms(1)])
  fix p' cols'
  assume p': "findPayloadColumn ?names g = Inr p'"
    and len: "length ?types = length ?names"
    and sup: "list_all supportedTag ?types"
    and num: "\<not> (?types ! p' = ''string'' \<or> ?types ! p' = ''datetime'')"
    and lc: "length cols' = length ?names"
    and cells: "\<And>j. j < length ?names \<Longrightarrow>
       appendCells ext (map (\<lambda>r. r ! j) (dataRows contents)) (columnOfTag (?types ! j)) =
         Inr (cols' ! j)"
    and st: "storeColumns ext p' 0 (zip (map (convertV1PathToV2Path ext) ?names) cols')
           emptyResult = Inr table"
  have pp: "p' = p" using p' assms(2) by simp
  let ?ncs = "zip (map (convertV1PathToV2Path ext) ?names) cols'"
  have d: "dim2CoordMapping (emptyResult :: 'f DataExtractorInput) = [[]]"
    by (simp add: emptyResult_def)
  have "coordsVals (emptyResult :: 'f DataExtractorInput) name = Some c \<or>
        (name, c) \<in> set (otherColumns p 0 ?ncs)"
    by (rule storeColumns_result(3) [OF st [unfolded pp] d assms(3)])
  then have "(name, c) \<in> set (otherColumns p 0 ?ncs)" by (simp add: emptyResult_def)
  from otherColumns_nth [OF this] obtain j where
    j: "j < length ?ncs" "j + 0 \<noteq> p" "?ncs ! j = (name, c)" by blast
  then have jl: "j < length ?names" using lc by simp
  have "convertV1PathToV2Path ext (?names ! j) = name" "cols' ! j = c"
    using j jl lc by simp_all
  with cells [OF jl] j(2) jl show ?thesis by auto
  qed
qed

lemma loaded_payload_rows:
  assumes "loadData (ext :: ('d, 'f) externals) contents g = Inr table"
    and "findPayloadColumn (contents ! 0) g = Inr p"
  shows "length (payloadArray table) = length (dataRows contents) \<and>
         map (\<lambda>row. map_option (\<lambda>x. [x]) (decodedPayload ext (contents ! 1 ! p) (row ! p)))
           (dataRows contents) = map Some (payloadArray table) \<and>
         (\<forall>name c. coordsVals table name = Some c \<longrightarrow>
            columnLength c = length (dataRows contents))"
proof -
  let ?tag = "contents ! 1 ! p"
  have eq: "map (\<lambda>row. map_option (\<lambda>x. [x]) (decodedPayload ext ?tag (row ! p)))
              (dataRows contents) = map Some (payloadArray table)"
    using payload_column_decoded [OF assms]
  proof (cases rule: disj_cases_guarded)
    case left
    from left(2) obtain ys where
      ys: "map (decodedInt ext) (map (\<lambda>r. r ! p) (dataRows contents)) = map Some ys"
      and pa: "payloadArray table = map (\<lambda>x. [int_to_float ext x]) ys" by blast
    have dp: "decodedPayload ext ?tag v = map_option (int_to_float ext) (decodedInt ext v)" for v
      unfolding decodedPayload_def if_P [OF left(1)] ..
    have "map (\<lambda>row. map_option (\<lambda>x. [x]) (decodedPayload ext ?tag (row ! p))) (dataRows contents) =
          map (map_option (\<lambda>x. [int_to_float ext x]))
            (map (decodedInt ext) (map (\<lambda>r. r ! p) (dataRows contents)))"
      unfolding dp by (simp add: option.map_comp comp_def)
    also have "\<dots> = map Some (payloadArray table)"
      unfolding ys pa by simp
    finally show ?thesis .
  next
    case right
    from right(3) obtain ys where
      ys: "map (decodedFloat ext) (map (\<lambda>r. r ! p) (dataRows contents)) = map Some ys"
      and pa: "payloadArray table = map (\<lambda>x. [x]) ys" by blast
    have dp: "decodedPayload ext ?tag v = decodedFloat ext v" for v
      unfolding decodedPayload_def if_not_P [OF right(1)] if_P [OF right(2)] ..
    have "map (\<lambda>row. map_option (\<lambda>x. [x]) (decodedPayload ext ?tag (row ! p))) (dataRows contents) =
          map (map_option (\<lambda>x. [x]))
            (map (decodedFloat ext) (map (\<lambda>r. r ! p) (dataRows contents)))"
      unfolding dp by (simp add: comp_def)
    also have "\<dots> = map Some (payloadArray table)"
      unfolding ys pa by simp
    finally show ?thesis .
  qed
  have len: "length (payloadArray table) = length (dataRows contents)"
    using arg_cong [OF eq, of length] by simp
  have coords: "columnLength c = length (dataRows contents)"
    if "coordsVals table name = Some c" for name c
  proof -
    from coordinate_columns_loaded [OF assms that] obtain j where
      "appendCells ext (map (\<lambda>r. r ! j) (dataRows contents))
         (columnOfTag (contents ! 1 ! j)) = Inr c" by blast
    from appendCells_length [OF this] show ?thesis
      by (simp add: columnLength_columnOfTag)
  qed
  show ?thesis using len eq coords by blast
qed

subsection \<open>An integer payload column\<close>

lemma bitLength_0: "bitLength 0 = 0"
  by (simp add: bitLength.simps)

lemma bitLength_pos: "0 < n \<Longrightarrow> bitLength n = Suc (bitLength (n div 2))"
  by (subst bitLength.simps) simp

lemma bitLength_upper: "n < 2 ^ bitLength n"
proof (induction n rule: bitLength.induct)
  case (1 n)
  show ?case
  proof (cases "n = 0")
    case True
    then show ?thesis by (simp add: bitLength_0)
  next
    case False
    then have "n div 2 < 2 ^ bitLength (n div 2)" by (rule "1.IH")
    then have "n < 2 * 2 ^ bitLength (n div 2)" by linarith
    then show ?thesis using False by (simp add: bitLength_pos)
  qed
qed

lemma bitLength_lower: "0 < n \<Longrightarrow> 2 ^ bitLength (n div 2) \<le> n"
proof (induction n rule: bitLength.induct)
  case (1 n)
  then have n: "n \<noteq> 0" by simp
  show ?case
  proof (cases "n div 2 = 0")
    case True
    then show ?thesis using "1.prems" by (simp add: bitLength_0)
  next
    case False
    then have pos: "0 < n div 2" by simp
    from "1.IH" [OF n pos] have "2 ^ bitLength (n div 2 div 2) \<le> n div 2" .
    then have "2 * 2 ^ bitLength (n div 2 div 2) \<le> n" by linarith
    then show ?thesis using pos by (simp add: bitLength_pos)
  qed
qed

lemma bitLength_le: "n < 2 ^ j \<Longrightarrow> bitLength n \<le> j"
proof (cases "n = 0")
  case True
  then show ?thesis by (simp add: bitLength_0)
next
  case False
  assume "n < 2 ^ j"
  from False have pos: "0 < n" by simp
  from bitLength_lower [OF pos] \<open>n < 2 ^ j\<close> have "(2::nat) ^ bitLength (n div 2) < 2 ^ j"
    by (rule le_less_trans)
  then have "bitLength (n div 2) < j" by (rule power_less_imp_less_exp [rotated]) simp
  then show ?thesis using pos by (simp add: bitLength_pos)
qed

lemma roundDiv_le: "roundDiv a b \<le> a div b + 1"
  by (simp add: roundDiv_def Let_def)

lemma dyadicValue_nonneg: "dyadicValue (m, int s) = real_of_int m * 2 ^ s"
  by (simp add: dyadicValue_def)

lemma isBinary32_roundInt:
  assumes "\<bar>n\<bar> \<le> 2 ^ 31"
  shows "isBinary32 (real_of_int (roundInt 24 n))"
proof -
  define a where "a = nat \<bar>n\<bar>"
  define k where "k = bitLength a"
  have a_lt: "a < 2 ^ k" unfolding k_def by (rule bitLength_upper)
  have "a < 2 ^ 32" using assms unfolding a_def by simp
  then have k32: "k \<le> 32" unfolding k_def by (rule bitLength_le)
  show ?thesis
  proof (cases "k \<le> 24")
    case True
    then have r: "roundInt 24 n = n" by (simp add: roundInt_def Let_def a_def k_def)
    have "(2::nat) ^ k \<le> 2 ^ 24" using True by (intro power_increasing) simp_all
    with a_lt have "a < 2 ^ 24" by simp
    then have "\<bar>n\<bar> < 2 ^ 24" unfolding a_def by simp
    moreover have "real_of_int n = dyadicValue (n, 0)" by (simp add: dyadicValue_def)
    ultimately have "\<bar>n\<bar> < 2 ^ 24 \<and> - 149 \<le> (0::int) \<and> (0::int) \<le> 104 \<and>
        real_of_int (roundInt 24 n) = dyadicValue (n, 0)" using r by simp
    then show ?thesis unfolding isBinary32_def by blast
  next
    case False
    define s where "s = k - 24"
    define q where "q = roundDiv a (2 ^ s)"
    have s: "0 < s" "s \<le> 8" "k = 24 + s" using False k32 unfolding s_def by simp_all
    have r: "roundInt 24 n = sgn n * int (q * 2 ^ s)"
      using False by (simp add: roundInt_def Let_def a_def k_def s_def q_def)
    have "a < 2 ^ 24 * 2 ^ s" using a_lt s(3) by (simp add: power_add)
    then have "a div 2 ^ s < 2 ^ 24" by (simp add: less_mult_imp_div_less)
    then have q_le: "q \<le> 2 ^ 24" using roundDiv_le [of a "2 ^ s"] unfolding q_def by simp
    have "a \<noteq> 0"
    proof
      assume "a = 0"
      then have "k = 0" unfolding k_def by (simp add: bitLength_0)
      with False show False by simp
    qed
    then have n0: "n \<noteq> 0" unfolding a_def by simp
    then have sg: "\<bar>sgn n\<bar> = 1" by (simp add: abs_sgn_eq)
    show ?thesis
    proof (cases "q = 2 ^ 24")
      case True
      let ?m = "sgn n * 2 ^ 23"
      have 1: "\<bar>?m\<bar> < 2 ^ 24" using sg by (simp add: abs_mult)
      have "real_of_int (roundInt 24 n) = real_of_int ?m * 2 ^ Suc s"
        unfolding r True by simp
      also have "\<dots> = dyadicValue (?m, int (Suc s))" by (simp only: dyadicValue_nonneg)
      finally have 2: "real_of_int (roundInt 24 n) = dyadicValue (?m, int (Suc s))" .
      have 3: "- 149 \<le> int (Suc s)" "int (Suc s) \<le> 104" using s by simp_all
      show ?thesis unfolding isBinary32_def using 1 2 3 by blast
    next
      case False
      with q_le have q_lt: "q < 2 ^ 24" by simp
      let ?m = "sgn n * int q"
      have "\<bar>?m\<bar> = int q" using sg by (simp add: abs_mult)
      then have 1: "\<bar>?m\<bar> < 2 ^ 24" using q_lt by simp
      have "real_of_int (roundInt 24 n) = real_of_int ?m * 2 ^ s"
        unfolding r by simp
      also have "\<dots> = dyadicValue (?m, int s)" by (simp only: dyadicValue_nonneg)
      finally have 2: "real_of_int (roundInt 24 n) = dyadicValue (?m, int s)" .
      have 3: "- 149 \<le> int s" "int s \<le> 104" using s by simp_all
      show ?thesis unfolding isBinary32_def using 1 2 3 by blast
    qed
  qed
qed

lemma isBinary32_int_to_binary32: "isBinary32 (int_to_binary32 x)"
proof -
  have "- (2 ^ 31) \<le> sint x" using sint_ge [of x] by simp
  moreover have "sint x < 2 ^ 31" using sint_lt [of x] by simp
  ultimately have "\<bar>sint x\<bar> \<le> 2 ^ 31" by simp
  then show ?thesis unfolding int_to_binary32_def by (rule isBinary32_roundInt)
qed

text \<open>An \<^verbatim>\<open>int\<close> of 25 bits that no \<^verbatim>\<open>float\<close> holds.\<close>

lemma isBinary32_not_16777217: "\<not> isBinary32 16777217"
proof
  assume "isBinary32 16777217"
  then obtain m e :: int where m: "\<bar>m\<bar> < 2 ^ 24"
    and x: "(16777217 :: real) = dyadicValue (m, e)"
    unfolding isBinary32_def by blast
  show False
  proof (cases "0 \<le> e")
    case True
    then have "real_of_int 16777217 = real_of_int (m * 2 ^ nat e)"
      using x by (simp add: dyadicValue_def)
    then have eq: "16777217 = m * 2 ^ nat e"
      by (simp only: of_int_eq_iff)
    show False
    proof (cases "nat e = 0")
      case True
      then have "m = 16777217" using eq by simp
      with m show False by simp
    next
      case False
      then have "even (m * 2 ^ nat e)" by simp
      with eq show False by (metis even_numeral odd_numeral numeral_eq_iff dvd_def even_of_int_iff of_int_numeral)
    qed
  next
    case False
    then have "(16777217 :: real) = real_of_int m / 2 ^ nat (- e)"
      using x by (simp add: dyadicValue_def)
    then have "real_of_int m = real_of_int (16777217 * 2 ^ nat (- e))"
      by (simp add: field_simps)
    then have "m = 16777217 * 2 ^ nat (- e)"
      by (simp only: of_int_eq_iff)
    moreover have "(1 :: int) \<le> 2 ^ nat (- e)" by simp
    ultimately have "16777217 \<le> m" by simp
    with m show False by simp
  qed
qed

text \<open>
  Claim C10. With the store of line 88 being the built-in conversion of an \<^verbatim>\<open>int\<close> to
  \<^verbatim>\<open>float\<close> (\<open>int_to_binary32\<close>), the payload array of a payload column tagged \<open>int\<close> or
  \<open>integer\<close> holds, row by row in file order, the \<^verbatim>\<open>int\<close> decoded from the cell converted
  to \<^verbatim>\<open>float\<close>: every element is a binary32 number, the one nearest to the integer, and
  not the integer itself where the integer needs more than 24 bits.
\<close>

theorem integer_payload_converted_to_float:
  fixes ext :: "('d, real) externals"
  assumes "loadData (ext\<lparr>int_to_float := int_to_binary32\<rparr>) contents g = Inr table"
    and "findPayloadColumn (contents ! 0) g = Inr p"
    and "contents ! 1 ! p = ''int'' \<or> contents ! 1 ! p = ''integer''"
  shows "map (\<lambda>row. map_option (\<lambda>x. [int_to_binary32 x]) (decodedInt ext (row ! p)))
           (dataRows contents) = map Some (payloadArray table) \<and>
         list_all (list_all isBinary32) (payloadArray table)"
proof -
  let ?ext = "ext\<lparr>int_to_float := int_to_binary32\<rparr>"
  have d: "decodedInt ?ext = decodedInt ext"
    by (rule ext) (simp add: decodedInt_def)
  from disj_select_left [OF payload_column_decoded [OF assms(1,2)] assms(3)] obtain ys where
    ys: "map (decodedInt ?ext) (map (\<lambda>r. r ! p) (dataRows contents)) = map Some ys"
    and pa: "payloadArray table = map (\<lambda>x. [int_to_float ?ext x]) ys" by blast
  have pa': "payloadArray table = map (\<lambda>x. [int_to_binary32 x]) ys"
    using pa by simp
  have "map (\<lambda>row. map_option (\<lambda>x. [int_to_binary32 x]) (decodedInt ext (row ! p)))
          (dataRows contents) =
        map (map_option (\<lambda>x. [int_to_binary32 x]))
          (map (decodedInt ext) (map (\<lambda>r. r ! p) (dataRows contents)))"
    by (simp add: comp_def)
  also have "\<dots> = map Some (payloadArray table)"
    unfolding ys [unfolded d] pa' by simp
  finally have 1: "map (\<lambda>row. map_option (\<lambda>x. [int_to_binary32 x]) (decodedInt ext (row ! p)))
           (dataRows contents) = map Some (payloadArray table)" .
  have 2: "list_all (list_all isBinary32) (payloadArray table)"
    unfolding pa' by (simp add: list_all_iff isBinary32_int_to_binary32)
  show ?thesis using 1 2 by (rule conjI)
qed

theorem integer_payload_converted_to_float_witness:
  "loadData (referenceExternals\<lparr>int_to_float := int_to_binary32\<rparr>)
     [[''G/count'', ''level''], [''integer'', ''float''],
      [''-3'', ''1e2''], [''_'', ''2''], [''16777217'', ''0.1'']] ''G'' =
     Inr \<lparr>payloadArray = [[- 3], [- 2147483648], [16777216]],
          coordsVals = [''level'' \<mapsto> FloatColumn [100, 2, 13421773 / 134217728]],
          coord2DimMapping = [''level'' \<mapsto> 0],
          dim2CoordMapping = [[''level'']]\<rparr> \<and>
   map (\<lambda>row. map_option (\<lambda>x. [int_to_binary32 x])
                (decodedInt referenceExternals (row ! 0)))
     [[''-3'', ''1e2''], [''_'', ''2''], [''16777217'', ''0.1'']] =
     [Some [- 3], Some [- 2147483648], Some [16777216]] \<and>
   list_all (list_all isBinary32) [[- 3], [- 2147483648], [16777216]]"
proof -
  let ?c = "[[''G/count'', ''level''], [''integer'', ''float''],
      [''-3'', ''1e2''], [''_'', ''2''], [''16777217'', ''0.1'']]"
  let ?t = "\<lparr>payloadArray = [[- 3 :: real], [- 2147483648], [16777216]],
          coordsVals = [''level'' \<mapsto> FloatColumn [100, 2, 13421773 / 134217728]],
          coord2DimMapping = [''level'' \<mapsto> 0],
          dim2CoordMapping = [[''level'']]\<rparr>"
  have h1: "loadData (referenceExternals\<lparr>int_to_float := int_to_binary32\<rparr>) ?c ''G'' = Inr ?t"
    by (simp add: loadData_eval literal_defs)
  have h2: "findPayloadColumn (?c ! 0) ''G'' = Inr 0"
    by (simp add: findPayloadColumn_def isInPayloadGroup_def beginsWith_def endsWith_def Let_def)
  have h3: "?c ! 1 ! 0 = ''int'' \<or> ?c ! 1 ! 0 = ''integer''" by simp
  have d: "dataRows ?c = [[''-3'', ''1e2''], [''_'', ''2''], [''16777217'', ''0.1'']]"
    by (simp add: dataRows_def blankRow_def numHeaderRows_def)
  note t = integer_payload_converted_to_float [OF h1 h2 h3]
  have a: "map (\<lambda>row. map_option (\<lambda>x. [int_to_binary32 x])
                (decodedInt referenceExternals (row ! 0)))
     [[''-3'', ''1e2''], [''_'', ''2''], [''16777217'', ''0.1'']] =
     [Some [- 3], Some [- 2147483648], Some [16777216]]"
    using t [THEN conjunct1] d by simp
  have b: "list_all (list_all isBinary32) [[- 3], [- 2147483648], [16777216]]"
    using t [THEN conjunct2] by simp
  show ?thesis using h1 a b by (intro conjI)
qed

subsection \<open>Empty lines among the data rows\<close>


text \<open>
  Claim C8. When a file loads, the file with a row of one empty cell inserted at any
  position from the first data row on (position \<open>k\<close>, counted in rows from the top, at
  least \<open>numHeaderRows\<close> and at most the number of rows) loads to the very same table:
  the payload array, the coordinate columns and the two mappings are unchanged.
\<close>

theorem blank_row_insertion:
  assumes "loadData ext contents g = Inr table"
    and "numHeaderRows \<le> k" and "k \<le> length contents"
  shows "loadData ext (take k contents @ [''''] # drop k contents) g = Inr table"
proof -
  have long: "2 < length contents"
  proof (rule ccontr)
    assume "\<not> 2 < length contents"
    then have "loadData ext contents g = Inl InsufficientData" by (simp add: loadData_short)
    with assms(1) show False by simp
  qed
  then obtain rows where
    c: "contents = (contents ! 0) # (contents ! 1) # rows" and r: "rows \<noteq> []"
    by (rule contents_shape)
  let ?names = "contents ! 0" and ?types = "contents ! 1"
  obtain m where k: "k = Suc (Suc m)"
    using assms(2) by (cases k; cases "k - 1") (auto simp: numHeaderRows_def)
  let ?rows' = "take m rows @ [''''] # drop m rows"
  have new: "take k contents @ [''''] # drop k contents = ?names # ?types # ?rows'"
  proof -
    have "take k (?names # ?types # rows) @ [''''] # drop k (?names # ?types # rows) =
          ?names # ?types # ?rows'" by (simp add: k)
    then show ?thesis using c by simp
  qed
  have r': "?rows' \<noteq> []" by simp
  have l: "loadData ext (?names # ?types # rows) g = Inr table" using c assms(1) by simp
  from l [unfolded loadData_rows [OF r]] obtain p cols cols' where
    p: "findPayloadColumn ?names g = Inr p" and
    len: "length ?types = length ?names" and
    al: "allocateColumns ?types p (length rows) 0 = Inr cols" and
    lr: "loadRows ext (length ?names) 2 rows cols = Inr cols'" and
    st: "storeColumns ext p 0 (zip (map (convertV1PathToV2Path ext) ?names) cols') emptyResult =
           Inr table" and
    ne: "payloadArray table \<noteq> []"
    by (auto split: sum.splits if_splits)
  have al': "allocateColumns ?types p (length ?rows') 0 = Inr cols"
    by (subst allocateColumns_numValues [where n' = "length rows"]) (rule al)
  have "loadRows ext (length ?names) 2 (take m rows @ drop m rows) cols = Inr cols'"
    using lr by simp
  then have lr': "loadRows ext (length ?names) 2 ?rows' cols = Inr cols'"
    by (rule loadRows_insert_blank)
  have "loadData ext (?names # ?types # ?rows') g = Inr table"
    unfolding loadData_rows [OF r'] using p len al' lr' st ne by simp
  then show ?thesis unfolding new .
qed

theorem blank_row_insertion_witness:
  "loadData referenceExternals
     (take 3 [[''station'', ''pressure@ErrorInflation''], [''string'', ''float''],
              [''A'', ''1.5''], [''B'', ''2.25'']] @
      [''''] #
      drop 3 [[''station'', ''pressure@ErrorInflation''], [''string'', ''float''],
              [''A'', ''1.5''], [''B'', ''2.25'']]) ''ErrorInflation'' =
     Inr \<lparr>payloadArray = [[1.5], [2.25]],
          coordsVals = [''station'' \<mapsto> StringColumn [''A'', ''B'']],
          coord2DimMapping = [''station'' \<mapsto> 0],
          dim2CoordMapping = [[''station'']]\<rparr>"
proof -
  let ?c = "[[''station'', ''pressure@ErrorInflation''], [''string'', ''float''],
              [''A'', ''1.5''], [''B'', ''2.25'']]"
  have h1: "loadData referenceExternals ?c ''ErrorInflation'' =
     Inr \<lparr>payloadArray = [[1.5], [2.25]],
          coordsVals = [''station'' \<mapsto> StringColumn [''A'', ''B'']],
          coord2DimMapping = [''station'' \<mapsto> 0],
          dim2CoordMapping = [[''station'']]\<rparr>"
    by (simp add: loadData_eval literal_defs)
  have h2: "numHeaderRows \<le> 3" by (simp add: numHeaderRows_def)
  have h3: "3 \<le> length ?c" by simp
  show ?thesis by (rule blank_row_insertion [OF h1 h2 h3])
qed

subsection \<open>The example file of the specification\<close>

text \<open>
  Claim C3. The file with the header \<open>station,pressure@ErrorInflation\<close>, the type row
  \<open>string,float\<close> and the data rows \<open>A,1.5\<close> and \<open>B,2.25\<close>, loaded for the group
  \<open>ErrorInflation\<close>, gives the payload \<open>[[1.5],[2.25]]\<close>, the column \<open>[A, B]\<close> for
  \<open>station\<close>, which is mapped to dimension 0, and \<open>[station]\<close> as the coordinates of
  dimension 0. This holds for all external conversions that read the two cells as the
  numbers they denote and leave the name \<open>station\<close> as it is.
\<close>

theorem concrete_two_row_file:
  fixes ext :: "('d, real) externals"
  assumes "map_option (double_to_float ext) (as_double ext ''1.5'') = Some 1.5"
    and "map_option (double_to_float ext) (as_double ext ''2.25'') = Some 2.25"
    and "convertV1PathToV2Path ext ''station'' = ''station''"
  shows "loadData ext
           [[''station'', ''pressure@ErrorInflation''], [''string'', ''float''],
            [''A'', ''1.5''], [''B'', ''2.25'']] ''ErrorInflation'' =
         Inr \<lparr>payloadArray = [[1.5], [2.25]],
              coordsVals = [''station'' \<mapsto> StringColumn [''A'', ''B'']],
              coord2DimMapping = [''station'' \<mapsto> 0],
              dim2CoordMapping = [[''station'']]\<rparr>"
proof -
  from assms(1) obtain d1 where d1: "as_double ext ''1.5'' = Some d1" "double_to_float ext d1 = 1.5"
    by auto
  from assms(2) obtain d2 where d2: "as_double ext ''2.25'' = Some d2" "double_to_float ext d2 = 2.25"
    by auto
  show ?thesis
    by (simp add: loadData_eval d1 d2 assms(3))
qed

theorem concrete_two_row_file_witness:
  "loadData referenceExternals
           [[''station'', ''pressure@ErrorInflation''], [''string'', ''float''],
            [''A'', ''1.5''], [''B'', ''2.25'']] ''ErrorInflation'' =
         Inr \<lparr>payloadArray = [[1.5], [2.25]],
              coordsVals = [''station'' \<mapsto> StringColumn [''A'', ''B'']],
              coord2DimMapping = [''station'' \<mapsto> 0],
              dim2CoordMapping = [[''station'']]\<rparr>"
proof -
  have h1: "map_option (double_to_float referenceExternals) (as_double referenceExternals ''1.5'') =
              Some 1.5" by (simp add: literal_defs)
  have h2: "map_option (double_to_float referenceExternals) (as_double referenceExternals ''2.25'') =
              Some 2.25" by (simp add: literal_defs)
  have h3: "convertV1PathToV2Path referenceExternals ''station'' = ''station''"
    by (simp add: literal_defs)
  show ?thesis by (rule concrete_two_row_file [OF h1 h2 h3])
qed

subsection \<open>The names of the coordinate columns\<close>

lemma otherColumns_zip_names:
  assumes "length names = length cols"
  shows "map fst (otherColumns p 0 (zip names cols)) = take p names @ drop (Suc p) names"
proof -
  have "map fst (otherColumns p 0 (zip names cols)) = otherColumns p 0 (map fst (zip names cols))"
    by (rule otherColumns_map)
  also have "map fst (zip names cols) = names" using assms by simp
  also have "otherColumns p 0 names = take (p - 0) names @ drop (Suc (p - 0)) names"
    by (rule otherColumns_take_drop) simp
  finally show ?thesis by simp
qed

text \<open>
  Claim C9, as the code has it. In every table that \<open>loadData\<close> returns,
  \<open>dim2CoordMapping\<close> has the one entry that lists, in file order, the normalised names
  of all columns but the payload column; \<open>coordsVals\<close> and \<open>coord2DimMapping\<close> have
  exactly these names as keys, each mapped to dimension 0; no coordinate column's name in
  the file matches the payload convention (so none equals the payload column's name in
  the file); and every entry of \<open>coordsVals\<close> holds the values loaded for a column other
  than the payload column. The loader never compares the names with one another: they
  are free of duplicates exactly when the normalised names of the header are.
\<close>

theorem coordinates_are_other_columns:
  assumes "loadData (ext :: ('d, 'f) externals) contents g = Inr table"
    and "findPayloadColumn (contents ! 0) g = Inr p"
  shows "dim2CoordMapping table =
           [map (convertV1PathToV2Path ext)
              (take p (contents ! 0) @ drop (Suc p) (contents ! 0))] \<and>
         dom (coordsVals table) =
           set (map (convertV1PathToV2Path ext)
                  (take p (contents ! 0) @ drop (Suc p) (contents ! 0))) \<and>
         (\<forall>name. coord2DimMapping table name =
            (if name \<in> set (map (convertV1PathToV2Path ext)
                              (take p (contents ! 0) @ drop (Suc p) (contents ! 0)))
             then Some 0 else None)) \<and>
         (\<forall>j<length (contents ! 0). j \<noteq> p \<longrightarrow>
            \<not> isInPayloadGroup (g @ ''/'') (''@'' @ g) (contents ! 0 ! j)) \<and>
         (\<forall>name c. coordsVals table name = Some c \<longrightarrow>
            (\<exists>j<length (contents ! 0). j \<noteq> p \<and>
               convertV1PathToV2Path ext (contents ! 0 ! j) = name \<and>
               appendCells ext (map (\<lambda>r. r ! j) (dataRows contents))
                 (columnOfTag (contents ! 1 ! j)) = Inr c))"
proof -
  let ?names = "contents ! 0" and ?types = "contents ! 1"
  let ?coords = "map (convertV1PathToV2Path ext) (take p ?names @ drop (Suc p) ?names)"
  have main: "dim2CoordMapping table = [?coords] \<and> dom (coordsVals table) = set ?coords \<and>
     (\<forall>name. coord2DimMapping table name = (if name \<in> set ?coords then Some 0 else None))"
  proof (rule loadData_Inr [OF assms(1)])
    fix p' cols'
    assume p': "findPayloadColumn ?names g = Inr p'"
      and lc: "length cols' = length ?names"
      and st: "storeColumns ext p' 0 (zip (map (convertV1PathToV2Path ext) ?names) cols')
           emptyResult = Inr table"
    have pp: "p' = p" using p' assms(2) by simp
    let ?ncs = "zip (map (convertV1PathToV2Path ext) ?names) cols'"
    have d: "dim2CoordMapping (emptyResult :: 'f DataExtractorInput) = [[]]"
      by (simp add: emptyResult_def)
    have names: "map fst (otherColumns p 0 ?ncs) = ?coords"
      using otherColumns_zip_names [of "map (convertV1PathToV2Path ext) ?names" cols' p] lc
      by (simp add: take_map drop_map)
    then have img: "fst ` set (otherColumns p 0 ?ncs) = set ?coords"
      by (metis set_map)
    note sr = storeColumns_result [OF st [unfolded pp] d]
    have 1: "dim2CoordMapping table = [?coords]" using sr(1) names by simp
    have 2: "dom (coordsVals table) = set ?coords"
      using sr(2) img by (simp add: emptyResult_def)
    have 3: "coord2DimMapping table name = (if name \<in> set ?coords then Some 0 else None)" for name
      using sr(4) [of name] img by (simp add: emptyResult_def)
    show ?thesis using 1 2 3 by blast
  qed
  have raw: "\<forall>j<length ?names. j \<noteq> p \<longrightarrow> \<not> isInPayloadGroup (g @ ''/'') (''@'' @ g) (?names ! j)"
    using findPayloadColumn_Inr(3) [OF assms(2)] by blast
  have vals: "\<forall>name c. coordsVals table name = Some c \<longrightarrow>
            (\<exists>j<length ?names. j \<noteq> p \<and>
               convertV1PathToV2Path ext (?names ! j) = name \<and>
               appendCells ext (map (\<lambda>r. r ! j) (dataRows contents))
                 (columnOfTag (?types ! j)) = Inr c)"
    using coordinate_columns_loaded [OF assms] by blast
  show ?thesis using main raw vals by (intro conjI) blast+
qed

theorem coordinates_are_other_columns_witness:
  "dim2CoordMapping
     \<lparr>payloadArray = [[3 :: real]], coordsVals = [''a'' \<mapsto> IntColumn [1], ''M/b'' \<mapsto> IntColumn [2]],
      coord2DimMapping = [''a'' \<mapsto> 0, ''M/b'' \<mapsto> 0],
      dim2CoordMapping = [[''a'', ''M/b'']]\<rparr> =
     [map (convertV1PathToV2Path referenceExternals) [''a'', ''b@M'']] \<and>
   \<not> isInPayloadGroup ''G/'' ''@G'' ''a'' \<and> \<not> isInPayloadGroup ''G/'' ''@G'' ''b@M''"
proof -
  let ?c = "[[''a'', ''x@G'', ''b@M''], [''int'', ''float'', ''int''], [''1'', ''3'', ''2'']]"
  let ?t = "\<lparr>payloadArray = [[3 :: real]],
      coordsVals = [''a'' \<mapsto> IntColumn [1], ''M/b'' \<mapsto> IntColumn [2]],
      coord2DimMapping = [''a'' \<mapsto> 0, ''M/b'' \<mapsto> 0],
      dim2CoordMapping = [[''a'', ''M/b'']]\<rparr>"
  have h1: "loadData referenceExternals ?c ''G'' = Inr ?t"
    by (simp add: loadData_eval literal_defs)
  have h2: "findPayloadColumn (?c ! 0) ''G'' = Inr 1"
    by (simp add: findPayloadColumn_def isInPayloadGroup_def beginsWith_def endsWith_def Let_def)
  note t = coordinates_are_other_columns [OF h1 h2]
  have a: "dim2CoordMapping ?t = [map (convertV1PathToV2Path referenceExternals) [''a'', ''b@M'']]"
    using t [THEN conjunct1] by simp
  have b: "\<forall>j<length (?c ! 0). j \<noteq> 1 \<longrightarrow>
            \<not> isInPayloadGroup (''G'' @ ''/'') (''@'' @ ''G'') (?c ! 0 ! j)"
    by (rule t [THEN conjunct2, THEN conjunct2, THEN conjunct2, THEN conjunct1])
  have b0: "\<not> isInPayloadGroup ''G/'' ''@G'' ''a''" using b [rule_format, of 0] by simp
  have b2: "\<not> isInPayloadGroup ''G/'' ''@G'' ''b@M''" using b [rule_format, of 2] by simp
  show ?thesis using a b0 b2 by (intro conjI)
qed

text \<open>
  The claim fails as stated. In the first file two coordinate columns are both named
  \<open>a\<close>: the load succeeds, dimension 0 lists \<open>a\<close> twice, and the second column replaces
  the first in \<open>coordsVals\<close>. In the second file the coordinate column \<open>x@H/y\<close> does not
  match the convention for the group \<open>H\<close>, and its normalised name is that of the payload
  column \<open>y/x@H\<close>.
\<close>

theorem duplicate_coordinate_names_load:
  "loadData referenceExternals
     [[''a'', ''a'', ''x@G''], [''int'', ''int'', ''float''], [''1'', ''2'', ''3'']] ''G'' =
     Inr \<lparr>payloadArray = [[3]], coordsVals = [''a'' \<mapsto> IntColumn [2]],
          coord2DimMapping = [''a'' \<mapsto> 0], dim2CoordMapping = [[''a'', ''a'']]\<rparr> \<and>
   \<not> distinct [''a'', ''a''] \<and>
   loadData referenceExternals
     [[''x@H/y'', ''y/x@H''], [''int'', ''float''], [''1'', ''2'']] ''H'' =
     Inr \<lparr>payloadArray = [[2]], coordsVals = [''H/y/x'' \<mapsto> IntColumn [1]],
          coord2DimMapping = [''H/y/x'' \<mapsto> 0], dim2CoordMapping = [[''H/y/x'']]\<rparr> \<and>
   findPayloadColumn [''x@H/y'', ''y/x@H''] ''H'' = Inr 1 \<and>
   convertV1PathToV2Path referenceExternals ''y/x@H'' = ''H/y/x''"
  by (simp add: loadData_eval literal_defs)

subsection \<open>Cells that the numeric conversions reject\<close>

lemma rejectedCell_cases:
  assumes "rejectedCell ext tag v"
  obtains (int) "tag = ''int'' \<or> tag = ''integer''" "decodedInt ext v = None"
    | (float) "tag = ''float''" "decodedFloat ext v = None"
proof -
  from assms have v: "v \<noteq> ''_''"
    and d: "(tag = ''int'' \<or> tag = ''integer'') \<and> as_long_long ext v = None \<or>
       tag = ''float'' \<and> as_double ext v = None"
    unfolding rejectedCell_def by (rule conjunct1, rule conjunct2)
  from d show ?thesis
  proof (rule disjE)
    assume a: "(tag = ''int'' \<or> tag = ''integer'') \<and> as_long_long ext v = None"
    have "decodedInt ext v = None"
      unfolding decodedInt_def if_not_P [OF v] using a [THEN conjunct2] by simp
    with a [THEN conjunct1] show ?thesis by (rule int)
  next
    assume a: "tag = ''float'' \<and> as_double ext v = None"
    have "decodedFloat ext v = None"
      unfolding decodedFloat_def if_not_P [OF v] using a [THEN conjunct2] by simp
    with a [THEN conjunct1] show ?thesis by (rule float)
  qed
qed

lemma columnOfTag_int:
  "tag = ''int'' \<or> tag = ''integer'' \<Longrightarrow> columnOfTag tag = IntColumn []"
  by (erule disjE) (simp_all add: columnOfTag_def)

lemma columnOfTag_float: "columnOfTag ''float'' = FloatColumn []"
  by (simp add: columnOfTag_def)

lemma rejectedCell_visitor:
  assumes "rejectedCell ext tag v"
    and "appendCells ext vs (columnOfTag tag) = Inr c"
  shows "AppendValueVisitor ext v c = Inl MalformedNumericLiteral"
  using assms(1)
proof (cases rule: rejectedCell_cases)
  case int
  from assms(2) have "appendCells ext vs (IntColumn []) = Inr c"
    by (simp add: columnOfTag_int [OF int(1)])
  from appendCells_Int [OF this] obtain ys where "c = IntColumn ys" by auto
  then show ?thesis using int(2)
    by (simp add: AppendValueVisitor_Int del: AppendValueVisitor.simps)
next
  case float
  from assms(2) have "appendCells ext vs (FloatColumn []) = Inr c"
    by (simp add: columnOfTag_float float(1))
  from appendCells_Float [OF this] obtain ys where "c = FloatColumn ys" by auto
  then show ?thesis using float(2)
    by (simp add: AppendValueVisitor_Float del: AppendValueVisitor.simps)
qed

lemma appendCells_mem:
  assumes "appendCells ext vs c0 = Inr c" and "v \<in> set vs"
  shows "\<exists>vs1 c1. appendCells ext vs1 c0 = Inr c1 \<and> AppendValueVisitor ext v c1 \<noteq> Inl e"
  using assms
proof (induction vs arbitrary: c rule: rev_induct)
  case Nil
  then show ?case by simp
next
  case (snoc x xs)
  from snoc.prems(1) obtain c1 where 1: "appendCells ext xs c0 = Inr c1"
    and 2: "AppendValueVisitor ext x c1 = Inr c"
    by (auto simp: appendCells_snoc split: sum.splits)
  show ?case
  proof (cases "v = x")
    case True
    with 1 2 have "appendCells ext xs c0 = Inr c1 \<and> AppendValueVisitor ext v c1 \<noteq> Inl e" by simp
    then show ?thesis by blast
  next
    case False
    then have "v \<in> set xs" using snoc.prems(2) by simp
    from snoc.IH [OF 1 this] show ?thesis .
  qed
qed

lemma loaded_cells_accepted:
  assumes "loadData ext contents g = Inr table"
    and "row \<in> set (dataRows contents)"
    and "j < length (contents ! 0)"
  shows "\<not> rejectedCell ext (contents ! 1 ! j) (row ! j)"
proof
  assume rej: "rejectedCell ext (contents ! 1 ! j) (row ! j)"
  show False
  proof (rule loadData_Inr [OF assms(1)])
    fix p' cols'
    assume cells: "\<And>j. j < length (contents ! 0) \<Longrightarrow>
       appendCells ext (map (\<lambda>r. r ! j) (dataRows contents)) (columnOfTag (contents ! 1 ! j)) =
         Inr (cols' ! j)"
    have mem: "row ! j \<in> set (map (\<lambda>r. r ! j) (dataRows contents))"
      using assms(2) by simp
    from appendCells_mem [OF cells [OF assms(3)] mem, of MalformedNumericLiteral]
    obtain vs1 c1 where
      1: "appendCells ext vs1 (columnOfTag (contents ! 1 ! j)) = Inr c1" and
      2: "AppendValueVisitor ext (row ! j) c1 \<noteq> Inl MalformedNumericLiteral" by blast
    from rejectedCell_visitor [OF rej 1] 2 show False by simp
  qed
qed











subsection \<open>Well-formed files\<close>

lemma tag_cases_ok:
  assumes "A \<or> B \<or> C" and "b \<longrightarrow> \<not> A"
  shows "(if A then (if b then Inl e else Inr s)
          else if B then Inr i else if C then Inr f else Inl e') =
         Inr (if A then s else if B then i else f)"
  using assms by auto

lemma allocStep_ok:
  assumes "supportedTag t" and "b \<longrightarrow> \<not> (t = ''string'' \<or> t = ''datetime'')"
  shows "(allocStep t b :: error + 'f Coordinate) = Inr (columnOfTag t)"
  unfolding allocStep_def columnOfTag_def
  by (rule tag_cases_ok [OF assms(1) [unfolded supportedTag_iff] assms(2)])

lemma allocateColumns_ok:
  assumes "list_all supportedTag types"
    and "c \<le> p \<and> p - c < length types \<longrightarrow>
           \<not> (types ! (p - c) = ''string'' \<or> types ! (p - c) = ''datetime'')"
  shows "(allocateColumns types p n c :: error + 'f Coordinate list) = Inr (map columnOfTag types)"
  using assms
proof (induction types arbitrary: c)
  case Nil
  show ?case by simp
next
  case (Cons t ts)
  have st: "supportedTag t" and sts: "list_all supportedTag ts" using Cons.prems(1) by simp_all
  have "c = p \<longrightarrow> \<not> (t = ''string'' \<or> t = ''datetime'')"
  proof
    assume "c = p"
    then have "c \<le> p \<and> p - c < length (t # ts)" and z: "p - c = 0" by simp_all
    with Cons.prems(2) have "\<not> ((t # ts) ! (p - c) = ''string'' \<or> (t # ts) ! (p - c) = ''datetime'')"
      by (rule_tac mp)
    then show "\<not> (t = ''string'' \<or> t = ''datetime'')" unfolding z nth_Cons_0 .
  qed
  with st have 1: "(allocStep t (c = p) :: error + 'f Coordinate) = Inr (columnOfTag t)"
    by (rule allocStep_ok)
  have "Suc c \<le> p \<and> p - Suc c < length ts \<longrightarrow>
           \<not> (ts ! (p - Suc c) = ''string'' \<or> ts ! (p - Suc c) = ''datetime'')"
  proof
    assume a: "Suc c \<le> p \<and> p - Suc c < length ts"
    then have "c \<le> p \<and> p - c < length (t # ts)" and e: "p - c = Suc (p - Suc c)" by auto
    with Cons.prems(2) have "\<not> ((t # ts) ! (p - c) = ''string'' \<or> (t # ts) ! (p - c) = ''datetime'')"
      by (rule_tac mp)
    then show "\<not> (ts ! (p - Suc c) = ''string'' \<or> ts ! (p - Suc c) = ''datetime'')"
      unfolding e nth_Cons_Suc .
  qed
  with sts have 2: "(allocateColumns ts p n (Suc c) :: error + 'f Coordinate list) =
      Inr (map columnOfTag ts)" by (rule Cons.IH)
  show ?case unfolding allocateColumns_Cons 1 2 by simp
qed

lemma kind_cases:
  "(if A then StringColumn [] else if B then IntColumn [] else FloatColumn []) = IntColumn [] \<Longrightarrow>
     \<not> A \<and> B"
  "(if A then StringColumn [] else if B then IntColumn [] else FloatColumn []) = FloatColumn [] \<Longrightarrow>
     \<not> A \<and> \<not> B"
  "(if A then StringColumn [] else if B then IntColumn [] else FloatColumn []) = StringColumn [] \<Longrightarrow>
     A"
  by (auto split: if_splits)

lemma float_tag: "A \<or> B \<or> C \<Longrightarrow> \<not> A \<and> \<not> B \<Longrightarrow> C"
  by blast

lemma not_rejected_int:
  assumes "\<not> rejectedCell ext tag v" and "tag = ''int'' \<or> tag = ''integer''"
  shows "\<exists>x. decodedInt ext v = Some x"
proof (cases "v = ''_''")
  case True
  then show ?thesis by (simp add: decodedInt_def)
next
  case False
  have "as_long_long ext v \<noteq> None"
  proof
    assume "as_long_long ext v = None"
    with assms(2) have "(tag = ''int'' \<or> tag = ''integer'') \<and> as_long_long ext v = None"
      by (rule conjI)
    then have "(tag = ''int'' \<or> tag = ''integer'') \<and> as_long_long ext v = None \<or>
       tag = ''float'' \<and> as_double ext v = None" by (rule disjI1)
    with False have "rejectedCell ext tag v" unfolding rejectedCell_def by (rule conjI)
    with assms(1) show False by (rule notE)
  qed
  then show ?thesis using False by (auto simp: decodedInt_def)
qed

lemma not_rejected_float:
  assumes "\<not> rejectedCell ext tag v" and "tag = ''float''"
  shows "\<exists>x. decodedFloat ext v = Some x"
proof (cases "v = ''_''")
  case True
  then show ?thesis by (simp add: decodedFloat_def)
next
  case False
  have "as_double ext v \<noteq> None"
  proof
    assume "as_double ext v = None"
    with assms(2) have "tag = ''float'' \<and> as_double ext v = None"
      by (rule conjI)
    then have "(tag = ''int'' \<or> tag = ''integer'') \<and> as_long_long ext v = None \<or>
       tag = ''float'' \<and> as_double ext v = None" by (rule disjI2)
    with False have "rejectedCell ext tag v" unfolding rejectedCell_def by (rule conjI)
    with assms(1) show False by (rule notE)
  qed
  then show ?thesis using False by (auto simp: decodedFloat_def)
qed

lemma AppendValueVisitor_ok:
  fixes ext :: "('d, 'f) externals" and c :: "'f Coordinate"
  assumes "supportedTag tag" and "\<not> rejectedCell ext tag v"
    and "emptied c = columnOfTag tag"
  shows "\<exists>c'. AppendValueVisitor ext v c = Inr c' \<and> emptied c' = emptied c"
proof (cases c)
  case (IntColumn xs)
  with assms(3) have "(columnOfTag tag :: 'f Coordinate) = IntColumn []" by simp
  from kind_cases(1) [OF this [unfolded columnOfTag_def]]
  have "tag = ''int'' \<or> tag = ''integer''" by (rule conjunct2)
  from not_rejected_int [OF assms(2) this] obtain x where "decodedInt ext v = Some x" ..
  then show ?thesis using IntColumn
    by (simp add: AppendValueVisitor_Int del: AppendValueVisitor.simps)
next
  case (FloatColumn xs)
  with assms(3) have "(columnOfTag tag :: 'f Coordinate) = FloatColumn []" by simp
  from kind_cases(2) [OF this [unfolded columnOfTag_def]]
  have "tag = ''float''"
    by (rule float_tag [OF assms(1) [unfolded supportedTag_iff]])
  from not_rejected_float [OF assms(2) this] obtain x where "decodedFloat ext v = Some x" ..
  then show ?thesis using FloatColumn
    by (simp add: AppendValueVisitor_Float del: AppendValueVisitor.simps)
next
  case (StringColumn xs)
  then show ?thesis
    by (simp add: AppendValueVisitor_String del: AppendValueVisitor.simps)
qed

lemma appendRow_ok:
  assumes "length row = length cols" and "length types = length cols"
    and "list_all supportedTag types"
    and "list_all (\<lambda>(tag, v). \<not> rejectedCell ext tag v) (zip types row)"
    and "map emptied cols = map columnOfTag types"
  shows "\<exists>cols'. appendRow ext row cols = Inr cols' \<and> map emptied cols' = map emptied cols"
  using assms
proof (induction cols arbitrary: row types)
  case Nil
  then show ?case by simp
next
  case (Cons c cs)
  from Cons.prems(1) obtain v vs where r: "row = v # vs" by (cases row) auto
  from Cons.prems(2) obtain t ts where t: "types = t # ts" by (cases types) auto
  have "supportedTag t" "\<not> rejectedCell ext t v" "emptied c = columnOfTag t"
    using Cons.prems(3,4,5) r t by simp_all
  from AppendValueVisitor_ok [OF this] obtain c' where
    1: "AppendValueVisitor ext v c = Inr c'" and 2: "emptied c' = emptied c" by blast
  have "\<exists>cs'. appendRow ext vs cs = Inr cs' \<and> map emptied cs' = map emptied cs"
  proof (rule Cons.IH)
    show "length vs = length cs" using Cons.prems(1) r by simp
    show "length ts = length cs" using Cons.prems(2) t by simp
    show "list_all supportedTag ts" using Cons.prems(3) t by simp
    show "list_all (\<lambda>(tag, v). \<not> rejectedCell ext tag v) (zip ts vs)"
      using Cons.prems(4) r t by simp
    show "map emptied cs = map columnOfTag ts" using Cons.prems(5) t by simp
  qed
  then obtain cs' where 3: "appendRow ext vs cs = Inr cs'"
    and 4: "map emptied cs' = map emptied cs" by blast
  have "appendRow ext row (c # cs) = Inr (c' # cs') \<and>
        map emptied (c' # cs') = map emptied (c # cs)"
    using r 1 2 3 4 by simp
  then show ?case by blast
qed

lemma loadRows_ok:
  assumes "length cols = n" and "length types = n"
    and "list_all supportedTag types"
    and "map emptied cols = map columnOfTag types"
    and "list_all (\<lambda>row. length row = n \<and>
                     list_all (\<lambda>(tag, v). \<not> rejectedCell ext tag v) (zip types row))
           (filter (\<lambda>r. \<not> blankRow r) rows)"
  shows "\<exists>cols'. loadRows ext n k rows cols = Inr cols'"
  using assms
proof (induction rows arbitrary: k cols)
  case Nil
  show ?case by simp
next
  case (Cons r rows)
  show ?case
  proof (cases "blankRow r")
    case True
    then have b: "length r = 1 \<and> r ! 0 = ''''" by (simp add: blankRow_def)
    have "\<exists>cols'. loadRows ext n (Suc k) rows cols = Inr cols'"
      using Cons.IH [OF Cons.prems(1,2,3,4)] Cons.prems(5) True by simp
    then show ?thesis using b by simp
  next
    case False
    then have nb: "\<not> (length r = 1 \<and> r ! 0 = '''')" by (simp add: blankRow_def)
    have len: "length r = n"
      and cells: "list_all (\<lambda>(tag, v). \<not> rejectedCell ext tag v) (zip types r)"
      and rest: "list_all (\<lambda>row. length row = n \<and>
                     list_all (\<lambda>(tag, v). \<not> rejectedCell ext tag v) (zip types row))
           (filter (\<lambda>r. \<not> blankRow r) rows)"
      using Cons.prems(5) False by simp_all
    have "\<exists>cols1. appendRow ext r cols = Inr cols1 \<and> map emptied cols1 = map emptied cols"
    proof (rule appendRow_ok [OF _ _ Cons.prems(3) cells Cons.prems(4)])
      show "length r = length cols" using len Cons.prems(1) by simp
      show "length types = length cols" using Cons.prems(1,2) by simp
    qed
    then obtain cols1 where 1: "appendRow ext r cols = Inr cols1"
      and 2: "map emptied cols1 = map emptied cols" by blast
    have l1: "length cols1 = n" using 2 Cons.prems(1) by (metis length_map)
    have e1: "map emptied cols1 = map columnOfTag types" using 2 Cons.prems(4) by simp
    from Cons.IH [OF l1 Cons.prems(2,3) e1 rest, of "Suc k"] obtain cols' where
      "loadRows ext n (Suc k) rows cols1 = Inr cols'" by blast
    then show ?thesis using nb len 1 by auto
  qed
qed

lemma storeColumns_ok:
  assumes "\<forall>j<length ncs. j + k = p \<longrightarrow>
             (\<exists>out. ConvertToEigenArrayVisitor ext (snd (ncs ! j)) = Inr out)"
  shows "\<exists>res'. storeColumns ext p k ncs res = Inr res'"
  using assms
proof (induction ncs arbitrary: k res)
  case Nil
  show ?case by simp
next
  case (Cons nc ncs)
  obtain name0 c0 where nc: "nc = (name0, c0)" by (cases nc)
  have rest: "\<forall>j<length ncs. j + Suc k = p \<longrightarrow>
             (\<exists>out. ConvertToEigenArrayVisitor ext (snd (ncs ! j)) = Inr out)"
  proof (intro allI impI)
    fix j assume "j < length ncs" "j + Suc k = p"
    then have "Suc j < length (nc # ncs)" "Suc j + k = p" by simp_all
    with Cons.prems have "\<exists>out. ConvertToEigenArrayVisitor ext (snd ((nc # ncs) ! Suc j)) = Inr out"
      by blast
    then show "\<exists>out. ConvertToEigenArrayVisitor ext (snd (ncs ! j)) = Inr out" by simp
  qed
  show ?case
  proof (cases "k = p")
    case True
    then have "0 < length (nc # ncs)" "0 + k = p" by simp_all
    with Cons.prems have "\<exists>out. ConvertToEigenArrayVisitor ext (snd ((nc # ncs) ! 0)) = Inr out"
      by blast
    then obtain out where "ConvertToEigenArrayVisitor ext c0 = Inr out" using nc by auto
    then show ?thesis using True nc Cons.IH [OF rest] by simp
  next
    case False
    then show ?thesis using nc Cons.IH [OF rest] by simp
  qed
qed

lemma ConvertToEigenArrayVisitor_length:
  "ConvertToEigenArrayVisitor ext c = Inr out \<Longrightarrow> length out = columnLength c"
  by (cases c) auto

lemma ConvertToEigenArrayVisitor_ok:
  fixes ext :: "('d, 'f) externals" and c :: "'f Coordinate"
  assumes "emptied c = columnOfTag tag" and "\<not> (tag = ''string'' \<or> tag = ''datetime'')"
  shows "\<exists>out. ConvertToEigenArrayVisitor ext c = Inr out"
proof (cases c)
  case (StringColumn xs)
  with assms(1) have "(columnOfTag tag :: 'f Coordinate) = StringColumn []" by simp
  from kind_cases(3) [OF this [unfolded columnOfTag_def]] assms(2) show ?thesis by (rule_tac notE)
qed simp_all

lemma loadRows_kinds:
  assumes "loadRows ext n k rows cols = Inr cols'" and "length cols = n"
  shows "map emptied cols' = map emptied cols"
proof -
  note pc = loadRows_columns [OF assms]
  have l: "length cols' = length cols" using pc assms(2) by simp
  have "emptied (cols' ! j) = emptied (cols ! j)" if "j < length cols" for j
  proof -
    have "\<forall>j<n. appendCells ext (map (\<lambda>r. r ! j) (filter (\<lambda>r. \<not> blankRow r) rows)) (cols ! j) =
      Inr (cols' ! j)" by (rule pc [THEN conjunct2, THEN conjunct2])
    then have a: "appendCells ext (map (\<lambda>r. r ! j) (filter (\<lambda>r. \<not> blankRow r) rows)) (cols ! j) =
      Inr (cols' ! j)" using that assms(2) by simp
    have "appendCells ext vs c = Inr c' \<Longrightarrow> emptied c' = emptied c" for vs c c'
    proof (induction vs arbitrary: c)
      case Nil
      then show ?case by simp
    next
      case (Cons v vs)
      from Cons.prems obtain c1 where 1: "AppendValueVisitor ext v c = Inr c1"
        and 2: "appendCells ext vs c1 = Inr c'" by (auto split: sum.splits)
      from 1 have "emptied c1 = emptied c" by (cases c) (auto split: if_splits option.splits)
      with Cons.IH [OF 2] show ?case by simp
    qed
    from this [OF a] show ?thesis .
  qed
  then show ?thesis using l by (simp add: list_eq_iff_nth_eq)
qed

lemma emptied_columnOfTag: "emptied (columnOfTag t) = columnOfTag t"
  unfolding columnOfTag_def
  by (simp only: if_distrib [of emptied] emptied.simps)

lemma dataRows_Cons:
  "dataRows (names # types # rows) = filter (\<lambda>r. \<not> blankRow r) rows"
  by (simp add: dataRows_def numHeaderRows_def)

lemma wellFormed_loads:
  fixes ext :: "('d, 'f) externals"
  assumes "wellFormed ext contents g"
  shows "\<exists>table. loadData ext contents g = Inr table"
proof -
  let ?names = "contents ! 0" and ?types = "contents ! 1"
  let ?n = "length ?names"
  let ?ok = "\<lambda>row. length row = ?n \<and>
               list_all (\<lambda>(tag, v). \<not> rejectedCell ext tag v) (zip ?types row)"
  from assms have long: "2 < length contents"
    by (simp add: wellFormed_def numHeaderRows_def)
  from assms obtain p where p: "findPayloadColumn ?names g = Inr p"
    by (auto simp: wellFormed_def split: sum.splits)
  from assms p have len: "length ?types = ?n"
    and sup: "list_all supportedTag ?types"
    and num: "\<not> (?types ! p = ''string'' \<or> ?types ! p = ''datetime'')"
    and ne: "dataRows contents \<noteq> []"
    and rows_ok: "list_all ?ok (dataRows contents)"
    by (simp_all add: wellFormed_def)
  from long obtain rows where
    c: "contents = ?names # ?types # rows" and r: "rows \<noteq> []"
    by (rule contents_shape)
  have dr: "dataRows contents = filter (\<lambda>r. \<not> blankRow r) rows"
    using dataRows_Cons [of ?names ?types rows] c by simp
  have plt: "p < ?n" by (rule findPayloadColumn_Inr(1) [OF p])
  let ?cols = "map columnOfTag ?types :: 'f Coordinate list"
  have al: "allocateColumns ?types p (length rows) 0 = Inr ?cols"
  proof (rule allocateColumns_ok [OF sup])
    show "0 \<le> p \<and> p - 0 < length ?types \<longrightarrow>
           \<not> (?types ! (p - 0) = ''string'' \<or> ?types ! (p - 0) = ''datetime'')"
      unfolding diff_zero using num by (rule_tac impI)
  qed
  have lc: "length ?cols = ?n" using len by simp
  have em: "map emptied ?cols = map columnOfTag ?types"
    by (simp add: emptied_columnOfTag)
  from loadRows_ok [OF lc len sup em rows_ok [unfolded dr], of 2] obtain cols' where
    lr: "loadRows ext ?n 2 rows ?cols = Inr cols'" by blast
  have em': "map emptied cols' = map columnOfTag ?types"
    using loadRows_kinds [OF lr lc] em by simp
  note pc = loadRows_columns [OF lr lc]
  have lc': "length cols' = ?n" by (rule pc [THEN conjunct1])
  let ?ncs = "zip (map (convertV1PathToV2Path ext) ?names) cols'"
  have ep: "emptied (cols' ! p) = columnOfTag (?types ! p)"
  proof -
    have "map emptied cols' ! p = map columnOfTag ?types ! p" using em' by simp
    then show ?thesis using plt lc' len by simp
  qed
  have conv: "\<exists>out. ConvertToEigenArrayVisitor ext (cols' ! p) = Inr out"
    by (rule ConvertToEigenArrayVisitor_ok [OF ep num])
  have "\<forall>j<length ?ncs. j + 0 = p \<longrightarrow>
          (\<exists>out. ConvertToEigenArrayVisitor ext (snd (?ncs ! j)) = Inr out)"
    using conv lc' by simp
  from storeColumns_ok [OF this, of emptyResult] obtain table where
    st: "storeColumns ext p 0 ?ncs emptyResult = Inr table" by blast
  have d: "dim2CoordMapping (emptyResult :: 'f DataExtractorInput) = [[]]"
    by (simp add: emptyResult_def)
  have "ConvertToEigenArrayVisitor ext (snd (?ncs ! (p - 0))) = Inr (payloadArray table)"
    using storeColumns_result(5) [OF st d] plt lc' by simp
  then have cp: "ConvertToEigenArrayVisitor ext (cols' ! p) = Inr (payloadArray table)"
    using plt lc' by simp
  have "\<forall>j<?n. appendCells ext (map (\<lambda>r. r ! j) (filter (\<lambda>r. \<not> blankRow r) rows)) (?cols ! j) =
      Inr (cols' ! j)" by (rule pc [THEN conjunct2, THEN conjunct2])
  then have "appendCells ext (map (\<lambda>r. r ! p) (dataRows contents)) (?cols ! p) = Inr (cols' ! p)"
    using plt dr by simp
  from appendCells_length [OF this]
  have "columnLength (cols' ! p) = length (dataRows contents)"
    using plt len by (simp add: columnLength_columnOfTag)
  with ConvertToEigenArrayVisitor_length [OF cp] ne have pa: "payloadArray table \<noteq> []"
    by auto
  have "loadData ext (?names # ?types # rows) g = Inr table"
    unfolding loadData_rows [OF r] using p len al lr st pa by simp
  then show ?thesis using c by metis
qed

lemma loads_wellFormed:
  fixes ext :: "('d, 'f) externals"
  assumes "loadData ext contents g = Inr table"
  shows "wellFormed ext contents g"
proof (rule loadData_Inr [OF assms])
  fix p cols'
  let ?names = "contents ! 0" and ?types = "contents ! 1"
  assume long: "2 < length contents"
    and p: "findPayloadColumn ?names g = Inr p"
    and len: "length ?types = length ?names"
    and sup: "list_all supportedTag ?types"
    and num: "\<not> (?types ! p = ''string'' \<or> ?types ! p = ''datetime'')"
    and rl: "\<forall>r\<in>set (dataRows contents). length r = length ?names"
    and ne: "payloadArray table \<noteq> []"
  have "length (payloadArray table) = length (dataRows contents)"
    using loaded_payload_rows [OF assms p] by (rule conjunct1)
  with ne have dne: "dataRows contents \<noteq> []" by auto
  have rows_ok: "list_all (\<lambda>row. length row = length ?names \<and>
                     list_all (\<lambda>(tag, v). \<not> rejectedCell ext tag v) (zip ?types row))
           (dataRows contents)"
    unfolding list_all_iff
  proof (intro ballI conjI)
    fix row assume row: "row \<in> set (dataRows contents)"
    show "length row = length ?names" using rl row by blast
    fix tv assume tv: "tv \<in> set (zip ?types row)"
    obtain tag v where tve: "tv = (tag, v)" by (cases tv)
    from tv tve obtain j where j: "j < length ?types" "j < length row"
      "?types ! j = tag" "row ! j = v"
      by (auto simp: set_zip)
    have "\<not> rejectedCell ext (?types ! j) (row ! j)"
      using loaded_cells_accepted [OF assms row] j(1) len by simp
    then show "case tv of (tag, v) \<Rightarrow> \<not> rejectedCell ext tag v" using j tve by simp
  qed
  show ?thesis
    unfolding wellFormed_def using long p len sup num dne rows_ok
    by (simp add: numHeaderRows_def)
qed

text \<open>
  Claim C1. A file is well-formed when it has a data row after the two header rows, one
  column name matches the payload convention, the type row has as many cells as the name
  row, every tag is one of the five recognised ones and the payload column's is numeric,
  and every data row that is not an empty line has one cell per column, none of which is
  rejected by the numeric conversion of its column; these are exactly the files that load
  (\<open>wellFormed_loads\<close>, \<open>loads_wellFormed\<close>). For every well-formed file, \<open>loadData\<close>
  returns a table; its payload array has as many rows as the file has data rows that are
  not empty lines; the rows of the array are, in the order of the file, the decoded
  values of the payload cells of these data rows (an integer cell converted to
  \<^verbatim>\<open>float\<close>, the placeholder decoded as the missing value); and every column stored in
  \<open>coordsVals\<close> has that same number of values.
\<close>

theorem payload_rows_in_file_order:
  fixes ext :: "('d, 'f) externals"
  assumes "wellFormed ext contents g"
    and "findPayloadColumn (contents ! 0) g = Inr p"
  shows "\<exists>table. loadData ext contents g = Inr table \<and>
           length (payloadArray table) = length (dataRows contents) \<and>
           map (\<lambda>row. map_option (\<lambda>x. [x]) (decodedPayload ext (contents ! 1 ! p) (row ! p)))
             (dataRows contents) = map Some (payloadArray table) \<and>
           (\<forall>name c. coordsVals table name = Some c \<longrightarrow>
              columnLength c = length (dataRows contents))"
proof -
  from wellFormed_loads [OF assms(1)] obtain table where
    l: "loadData ext contents g = Inr table" ..
  from loaded_payload_rows [OF l assms(2)] l show ?thesis by blast
qed

theorem payload_rows_in_file_order_witness:
  "wellFormed referenceExternals
     [[''station'', ''pressure@ErrorInflation''], [''string'', ''float''],
      [''A'', ''1.5''], [''''], [''B'', ''_'']] ''ErrorInflation'' \<and>
   loadData referenceExternals
     [[''station'', ''pressure@ErrorInflation''], [''string'', ''float''],
      [''A'', ''1.5''], [''''], [''B'', ''_'']] ''ErrorInflation'' =
     Inr \<lparr>payloadArray = [[1.5], [missing_float referenceExternals]],
          coordsVals = [''station'' \<mapsto> StringColumn [''A'', ''B'']],
          coord2DimMapping = [''station'' \<mapsto> 0],
          dim2CoordMapping = [[''station'']]\<rparr> \<and>
   dataRows [[''station'', ''pressure@ErrorInflation''], [''string'', ''float''],
      [''A'', ''1.5''], [''''], [''B'', ''_'']] = [[''A'', ''1.5''], [''B'', ''_'']] \<and>
   map (\<lambda>row. map_option (\<lambda>x. [x]) (decodedPayload referenceExternals ''float'' (row ! 1)))
     [[''A'', ''1.5''], [''B'', ''_'']] =
     [Some [1.5], Some [missing_float referenceExternals]] \<and>
   columnLength (StringColumn [''A'', ''B'']) = 2"
proof -
  let ?c = "[[''station'', ''pressure@ErrorInflation''], [''string'', ''float''],
      [''A'', ''1.5''], [''''], [''B'', ''_'']]"
  let ?t = "\<lparr>payloadArray = [[1.5], [missing_float referenceExternals]],
          coordsVals = [''station'' \<mapsto> StringColumn [''A'', ''B'']],
          coord2DimMapping = [''station'' \<mapsto> 0],
          dim2CoordMapping = [[''station'']]\<rparr>"
  have h1: "loadData referenceExternals ?c ''ErrorInflation'' = Inr ?t"
    by (simp add: loadData_eval literal_defs)
  have h2: "findPayloadColumn (?c ! 0) ''ErrorInflation'' = Inr 1"
    by (simp add: findPayloadColumn_def isInPayloadGroup_def beginsWith_def endsWith_def Let_def)
  have d: "dataRows ?c = [[''A'', ''1.5''], [''B'', ''_'']]"
    by (simp add: dataRows_def blankRow_def numHeaderRows_def)
  have r1: "\<not> rejectedCell referenceExternals ''string'' v" for v
    by (simp add: rejectedCell_def)
  have r2: "\<not> rejectedCell referenceExternals ''float'' ''1.5''"
    by (simp add: rejectedCell_def literal_defs)
  have r3: "\<not> rejectedCell referenceExternals tag ''_''" for tag
    by (simp add: rejectedCell_def)
  have h2': "findPayloadColumn [''station'', ''pressure@ErrorInflation''] ''ErrorInflation'' = Inr 1"
    using h2 by simp
  have hw: "wellFormed referenceExternals ?c ''ErrorInflation''"
    unfolding wellFormed_def d
    by (simp add: h2' numHeaderRows_def supportedTag_def r1 r2 r3)
  show ?thesis
    using hw h1 d payload_rows_in_file_order [OF hw h2]
    by simp
qed

end
